theory Spec2Isabelle
  imports Main "HOL-Library.Word" "HOL-Library.Sublist"
begin

unbundle bit_operations_syntax

section \<open>Bytes, words and the tag constants\<close>

type_synonym byte = "8 word"
type_synonym u32 = "32 word"

text \<open>
  The section tags of \<^verbatim>\<open>SkPictureData.cpp\<close> are macros of a header that is not
  part of the sources at hand. They are taken as a parameter: one record holding the
  twelve 32-bit constants the file uses. A C++ \<^verbatim>\<open>switch\<close> needs pairwise different
  case labels, which is what \<open>tags_distinct\<close> says.
\<close>

record pict_tags =
  SK_PICT_READER_TAG :: u32
  SK_PICT_FACTORY_TAG :: u32
  SK_PICT_TYPEFACE_TAG :: u32
  SK_PICT_PICTURE_TAG :: u32
  SK_PICT_DRAWABLE_TAG :: u32
  SK_PICT_BUFFER_SIZE_TAG :: u32
  SK_PICT_PAINT_BUFFER_TAG :: u32
  SK_PICT_PATH_BUFFER_TAG :: u32
  SK_PICT_TEXTBLOB_BUFFER_TAG :: u32
  SK_PICT_VERTICES_BUFFER_TAG :: u32
  SK_PICT_IMAGE_BUFFER_TAG :: u32
  SK_PICT_EOF_TAG :: u32

definition tag_list :: "pict_tags \<Rightarrow> u32 list" where
  "tag_list T =
     [SK_PICT_READER_TAG T, SK_PICT_FACTORY_TAG T, SK_PICT_TYPEFACE_TAG T,
      SK_PICT_PICTURE_TAG T, SK_PICT_DRAWABLE_TAG T, SK_PICT_BUFFER_SIZE_TAG T,
      SK_PICT_PAINT_BUFFER_TAG T, SK_PICT_PATH_BUFFER_TAG T,
      SK_PICT_TEXTBLOB_BUFFER_TAG T, SK_PICT_VERTICES_BUFFER_TAG T,
      SK_PICT_IMAGE_BUFFER_TAG T, SK_PICT_EOF_TAG T]"

definition tags_distinct :: "pict_tags \<Rightarrow> bool" where
  "tags_distinct T = distinct (tag_list T)"

text \<open>The tags the outer \<^verbatim>\<open>switch\<close> of \<^verbatim>\<open>parseStreamTag\<close> has a case for.\<close>

definition outer_tags :: "pict_tags \<Rightarrow> u32 list" where
  "outer_tags T =
     [SK_PICT_READER_TAG T, SK_PICT_FACTORY_TAG T, SK_PICT_TYPEFACE_TAG T,
      SK_PICT_PICTURE_TAG T, SK_PICT_BUFFER_SIZE_TAG T]"

text \<open>The tags the \<^verbatim>\<open>switch\<close> of \<^verbatim>\<open>parseBufferTag\<close> has a case for.\<close>

definition inner_tags :: "pict_tags \<Rightarrow> u32 list" where
  "inner_tags T =
     [SK_PICT_PAINT_BUFFER_TAG T, SK_PICT_PATH_BUFFER_TAG T,
      SK_PICT_TEXTBLOB_BUFFER_TAG T, SK_PICT_VERTICES_BUFFER_TAG T,
      SK_PICT_IMAGE_BUFFER_TAG T, SK_PICT_READER_TAG T, SK_PICT_PICTURE_TAG T,
      SK_PICT_DRAWABLE_TAG T]"

text \<open>
  The four-character codes of the missing header, used for concrete inputs only:
  \<^verbatim>\<open>read fact tpfc pctr draw aray pnt  pth  blob vert imag eof \<close>.
\<close>

definition four_cc_tags :: pict_tags where
  "four_cc_tags =
     \<lparr>SK_PICT_READER_TAG = 0x72656164, SK_PICT_FACTORY_TAG = 0x66616374,
      SK_PICT_TYPEFACE_TAG = 0x74706663, SK_PICT_PICTURE_TAG = 0x70637472,
      SK_PICT_DRAWABLE_TAG = 0x64726177, SK_PICT_BUFFER_SIZE_TAG = 0x61726179,
      SK_PICT_PAINT_BUFFER_TAG = 0x706E7420, SK_PICT_PATH_BUFFER_TAG = 0x70746820,
      SK_PICT_TEXTBLOB_BUFFER_TAG = 0x626C6F62, SK_PICT_VERTICES_BUFFER_TAG = 0x76657274,
      SK_PICT_IMAGE_BUFFER_TAG = 0x696D6167, SK_PICT_EOF_TAG = 0x656F6620\<rparr>"

section \<open>The outer byte stream\<close>

text \<open>
  Modelled from the spec: \<^verbatim>\<open>SkStream\<close> and \<^verbatim>\<open>SkWStream\<close> (the stream classes are
  missing). A stream is the list of its unread bytes; a sink is the list of the bytes
  written. "All integers are little-endian 32-bit unsigned."
\<close>

definition write32 :: "u32 \<Rightarrow> byte list" where
  "write32 w = [ucast w, ucast (drop_bit 8 w), ucast (drop_bit 16 w), ucast (drop_bit 24 w)]"

definition le32 :: "byte \<Rightarrow> byte \<Rightarrow> byte \<Rightarrow> byte \<Rightarrow> u32" where
  "le32 b0 b1 b2 b3 =
     ucast b0 OR push_bit 8 (ucast b1) OR push_bit 16 (ucast b2) OR push_bit 24 (ucast b3)"

fun readU32 :: "byte list \<Rightarrow> (u32 \<times> byte list) option" where
  "readU32 (b0 # b1 # b2 # b3 # s) = Some (le32 b0 b1 b2 b3, s)"
| "readU32 _ = None"

text \<open>
  Modelled from the spec: the packed length of \<^verbatim>\<open>writePackedUInt\<close> and
  \<^verbatim>\<open>readPackedUInt\<close>. "A single byte \<open>b < 255\<close> encodes the value directly;
  \<open>b = 255\<close> is followed by a 32-bit value."
\<close>

definition SizeOfPackedUInt :: "nat \<Rightarrow> nat" where
  "SizeOfPackedUInt n = (if n < 255 then 1 else 5)"

definition writePackedUInt :: "nat \<Rightarrow> byte list" where
  "writePackedUInt n = (if n < 255 then [of_nat n] else 255 # write32 (of_nat n))"

fun readPackedUInt :: "byte list \<Rightarrow> (nat \<times> byte list) option" where
  "readPackedUInt [] = None"
| "readPackedUInt (b # s) =
     (if b \<noteq> 255 then Some (unat b, s)
      else (case readU32 s of None \<Rightarrow> None | Some (w, s') \<Rightarrow> Some (unat w, s')))"

text \<open>\<^verbatim>\<open>write_tag_size(SkWStream*, tag, size)\<close>; \<^verbatim>\<open>SkToU32\<close> is a cast in release builds.\<close>

definition write_tag_size :: "u32 \<Rightarrow> nat \<Rightarrow> byte list" where
  "write_tag_size tag sz = write32 tag @ write32 (of_nat sz)"

section \<open>The picture data container\<close>

record SkPictInfo =
  fVersion :: u32

text \<open>
  The fields of \<^verbatim>\<open>SkPictureData\<close>. The resources are black boxes, one type variable
  each: paints, paths, text blobs, vertices, images, drawables, typefaces, factories.
  \<open>fOpData\<close> is a nullable pointer to a byte blob, \<open>fFactoryPlayback\<close> a nullable
  pointer to a table whose entries may be null, \<open>fTFPlayback\<close> a table of (nullable)
  typeface pointers. Modelled from the spec: a sub-picture (\<^verbatim>\<open>SkPicture\<close>, whose class
  is missing) is the \<^verbatim>\<open>SkPictureData\<close> it owns.
\<close>

datatype ('pn, 'pt, 'bl, 'vx, 'im, 'dr, 'tf, 'fc) SkPictureData = SkPictureData
  (fOpData: "byte list option")
  (fPaints: "'pn list")
  (fPaths: "'pt list")
  (fTextBlobs: "'bl list")
  (fVertices: "'vx list")
  (fImages: "'im list")
  (fDrawables: "'dr list")
  (fPictures: "('pn, 'pt, 'bl, 'vx, 'im, 'dr, 'tf, 'fc) SkPictureData list")
  (fInfo: SkPictInfo)
  (fFactoryPlayback: "'fc option list option")
  (fTFPlayback: "'tf option list")

text \<open>\<^verbatim>\<open>SkPictureData::SkPictureData(const SkPictInfo& info)\<close>: everything empty or null.\<close>

definition new_SkPictureData ::
  "SkPictInfo \<Rightarrow> ('pn, 'pt, 'bl, 'vx, 'im, 'dr, 'tf, 'fc) SkPictureData" where
  "new_SkPictureData info = SkPictureData None [] [] [] [] [] [] [] info None []"

text \<open>Assignments to one field.\<close>

fun set_fOpData where
  "set_fOpData v (SkPictureData a b c d e f g h i j k) = SkPictureData v b c d e f g h i j k"

fun set_fPaints where
  "set_fPaints v (SkPictureData a b c d e f g h i j k) = SkPictureData a v c d e f g h i j k"

fun set_fPaths where
  "set_fPaths v (SkPictureData a b c d e f g h i j k) = SkPictureData a b v d e f g h i j k"

fun set_fTextBlobs where
  "set_fTextBlobs v (SkPictureData a b c d e f g h i j k) = SkPictureData a b c v e f g h i j k"

fun set_fVertices where
  "set_fVertices v (SkPictureData a b c d e f g h i j k) = SkPictureData a b c d v f g h i j k"

fun set_fImages where
  "set_fImages v (SkPictureData a b c d e f g h i j k) = SkPictureData a b c d e v g h i j k"

fun set_fDrawables where
  "set_fDrawables v (SkPictureData a b c d e f g h i j k) = SkPictureData a b c d e f v h i j k"

fun set_fPictures where
  "set_fPictures v (SkPictureData a b c d e f g h i j k) = SkPictureData a b c d e f g v i j k"

fun set_fFactoryPlayback where
  "set_fFactoryPlayback v (SkPictureData a b c d e f g h i j k) =
     SkPictureData a b c d e f g h i v k"

fun set_fTFPlayback where
  "set_fTFPlayback v (SkPictureData a b c d e f g h i j k) = SkPictureData a b c d e f g h i j v"

section \<open>The read buffer\<close>

text \<open>
  Modelled from the spec: \<^verbatim>\<open>SkReadBuffer\<close> (the class is missing). "A cursor over an
  in-memory byte range carrying a sticky validity flag, a version number, a factory
  playback, a typeface playback." \<open>rb_data\<close> is the unread part of the range.
\<close>

record ('tf, 'fc) SkReadBuffer =
  rb_data :: "byte list"
  fError :: bool
  rb_version :: u32
  fFactoryArray :: "'fc option list"
  fTFArray :: "'tf option list"

definition new_SkReadBuffer :: "byte list \<Rightarrow> ('tf, 'fc) SkReadBuffer" where
  "new_SkReadBuffer bytes =
     \<lparr>rb_data = bytes, fError = False, rb_version = 0, fFactoryArray = [], fTFArray = []\<rparr>"

definition eof :: "('tf, 'fc) SkReadBuffer \<Rightarrow> bool" where
  "eof b = (rb_data b = [])"

definition isValid :: "('tf, 'fc) SkReadBuffer \<Rightarrow> bool" where
  "isValid b = (\<not> fError b)"

text \<open>"\<open>validate(cond)\<close> (latch and return)": the flag is set when the condition is
  false, and the answer is whether the buffer is still valid.\<close>

definition validate :: "bool \<Rightarrow> ('tf, 'fc) SkReadBuffer \<Rightarrow> bool \<times> ('tf, 'fc) SkReadBuffer" where
  "validate cond b = (\<not> fError b \<and> cond, b\<lparr>fError := fError b \<or> \<not> cond\<rparr>)"

text \<open>"Every typed read is fallible; any failure, bounds violation [...] latches
  invalidity." A 32-bit read that fails yields 0.\<close>

definition readUInt :: "('tf, 'fc) SkReadBuffer \<Rightarrow> u32 \<times> ('tf, 'fc) SkReadBuffer" where
  "readUInt b =
     (if fError b then (0, b)
      else (case readU32 (rb_data b) of
              None \<Rightarrow> (0, b\<lparr>fError := True\<rparr>)
            | Some (w, rest) \<Rightarrow> (w, b\<lparr>rb_data := rest\<rparr>)))"

definition readInt :: "('tf, 'fc) SkReadBuffer \<Rightarrow> int \<times> ('tf, 'fc) SkReadBuffer" where
  "readInt b = (case readUInt b of (w, b') \<Rightarrow> (sint w, b'))"

text \<open>\<open>validateCanReadN<uint8_t>(n)\<close>: the byte-budget check before an allocation.\<close>

definition validateCanReadN ::
  "nat \<Rightarrow> ('tf, 'fc) SkReadBuffer \<Rightarrow> bool \<times> ('tf, 'fc) SkReadBuffer" where
  "validateCanReadN n b = validate (n \<le> length (rb_data b)) b"

text \<open>"Byte arrays are emitted as a 32-bit length followed by the bytes, padded to a
  4-byte boundary on the structured buffer."\<close>

definition SkAlign4 :: "nat \<Rightarrow> nat" where
  "SkAlign4 n = ((n + 3) div 4) * 4"

definition readByteArrayAsData ::
  "('tf, 'fc) SkReadBuffer \<Rightarrow> byte list option \<times> ('tf, 'fc) SkReadBuffer" where
  "readByteArrayAsData b =
     (case readUInt b of (len, b1) \<Rightarrow>
        (case validate (SkAlign4 (unat len) \<le> length (rb_data b1)) b1 of (ok, b2) \<Rightarrow>
           if \<not> ok then (None, b2)
           else (Some (take (unat len) (rb_data b2)),
                 b2\<lparr>rb_data := drop (SkAlign4 (unat len)) (rb_data b2)\<rparr>)))"

text \<open>\<open>readByteArray(dst, size)\<close>: a byte array whose stored length must be \<open>size\<close>.\<close>

definition readByteArray ::
  "nat \<Rightarrow> ('tf, 'fc) SkReadBuffer \<Rightarrow> byte list option \<times> ('tf, 'fc) SkReadBuffer" where
  "readByteArray sz b =
     (case readUInt b of (len, b1) \<Rightarrow>
        (case validate (unat len = sz \<and> SkAlign4 sz \<le> length (rb_data b1)) b1 of
           (ok, b2) \<Rightarrow>
             if \<not> ok then (None, b2)
             else (Some (take sz (rb_data b2)),
                   b2\<lparr>rb_data := drop (SkAlign4 sz) (rb_data b2)\<rparr>)))"

text \<open>
  A typed read of a black-box flattenable. The flattenable's own decoder sees the buffer
  and answers with the object (or null) and the number of bytes it took; the cursor can
  only advance, and a failure latches the flag.
\<close>

definition typed_read ::
  "(('tf, 'fc) SkReadBuffer \<Rightarrow> 'a option \<times> nat) \<Rightarrow> ('tf, 'fc) SkReadBuffer
     \<Rightarrow> 'a option \<times> ('tf, 'fc) SkReadBuffer" where
  "typed_read rd b =
     (if fError b then (None, b)
      else (case rd b of
              (None, n) \<Rightarrow> (None, b\<lparr>rb_data := drop n (rb_data b), fError := True\<rparr>)
            | (Some x, n) \<Rightarrow> (Some x, b\<lparr>rb_data := drop n (rb_data b)\<rparr>)))"

text \<open>
  A typed read into a slot the caller has already allocated (\<open>readPaint(&paint)\<close>,
  \<open>readPath(&path)\<close>): the decoder answers with what it left in the slot, whether it
  succeeded, and the number of bytes it took.
\<close>

definition slot_read ::
  "(('tf, 'fc) SkReadBuffer \<Rightarrow> 'a \<times> bool \<times> nat) \<Rightarrow> ('tf, 'fc) SkReadBuffer
     \<Rightarrow> 'a \<times> bool \<times> ('tf, 'fc) SkReadBuffer" where
  "slot_read rd b =
     (case rd b of (x, ok, n) \<Rightarrow>
        (x, ok \<and> \<not> fError b,
         b\<lparr>rb_data := drop n (rb_data b), fError := fError b \<or> \<not> ok\<rparr>))"

section \<open>The collaborators of the decoder\<close>

text \<open>
  The decoders of the black-box resources and the global factory registry, none of which
  is part of the sources at hand, as one record of parameters. A decoder that reads from
  a stream or from the read buffer answers with its result and the number of bytes it
  took. The deserialisation callbacks (\<^verbatim>\<open>SkDeserialProcs\<close>) only configure these
  decoders and are passed on unchanged everywhere, so they are part of the parameters.
\<close>

record ('pn, 'pt, 'bl, 'vx, 'im, 'dr, 'tf, 'fc) readers =
  Typeface_MakeDeserialize :: "byte list \<Rightarrow> 'tf option \<times> nat"
  Typeface_MakeDefault :: "'tf"
  NameToFactory :: "byte list \<Rightarrow> 'fc option"
  readPaint :: "('tf, 'fc) SkReadBuffer \<Rightarrow> 'pn \<times> bool \<times> nat"
  readPath :: "('tf, 'fc) SkReadBuffer \<Rightarrow> 'pt \<times> bool \<times> nat"
  TextBlob_MakeFromBuffer :: "('tf, 'fc) SkReadBuffer \<Rightarrow> 'bl option \<times> nat"
  Vertices_Decode :: "byte list \<Rightarrow> 'vx option"
  readImage :: "('tf, 'fc) SkReadBuffer \<Rightarrow> 'im option \<times> nat"
  readDrawable :: "('tf, 'fc) SkReadBuffer \<Rightarrow> 'dr option \<times> nat"
  Picture_MakeFromBuffer ::
    "('tf, 'fc) SkReadBuffer \<Rightarrow> ('pn, 'pt, 'bl, 'vx, 'im, 'dr, 'tf, 'fc) SkPictureData option \<times> nat"

section \<open>The inner loop: sections of the structured buffer\<close>

text \<open>\<^verbatim>\<open>create_vertices_from_buffer\<close>.\<close>

definition create_vertices_from_buffer ::
  "('pn, 'pt, 'bl, 'vx, 'im, 'dr, 'tf, 'fc) readers \<Rightarrow> ('tf, 'fc) SkReadBuffer
     \<Rightarrow> 'vx option \<times> ('tf, 'fc) SkReadBuffer" where
  "create_vertices_from_buffer R b =
     (case readByteArrayAsData b of
        (None, b') \<Rightarrow> (None, b')
      | (Some data, b') \<Rightarrow> (Vertices_Decode R data, b'))"

text \<open>\<^verbatim>\<open>SkTFitsIn<int>(uint32_t)\<close>.\<close>

definition SkTFitsIn_int :: "u32 \<Rightarrow> bool" where
  "SkTFitsIn_int n = (unat n \<le> 2147483647)"

text \<open>
  The loop of \<^verbatim>\<open>new_array_from_buffer\<close>, with the number of items still to read. A null
  object, or an object read into a buffer that is no longer valid, resets the array.
\<close>

fun new_array_loop ::
  "(('tf, 'fc) SkReadBuffer \<Rightarrow> 'a option \<times> ('tf, 'fc) SkReadBuffer) \<Rightarrow> nat
     \<Rightarrow> ('tf, 'fc) SkReadBuffer \<Rightarrow> 'a list \<Rightarrow> bool \<times> ('tf, 'fc) SkReadBuffer \<times> 'a list" where
  "new_array_loop factory 0 b array = (True, b, array)"
| "new_array_loop factory (Suc n) b array =
     (case factory b of (obj, b1) \<Rightarrow>
        (case validate (obj \<noteq> None) b1 of (ok, b2) \<Rightarrow>
           (case obj of
              None \<Rightarrow> (False, b2, [])
            | Some x \<Rightarrow>
                if \<not> ok then (False, b2, [])
                else new_array_loop factory n b2 (array @ [x]))))"

definition new_array_from_buffer ::
  "('tf, 'fc) SkReadBuffer \<Rightarrow> u32 \<Rightarrow> 'a list
     \<Rightarrow> (('tf, 'fc) SkReadBuffer \<Rightarrow> 'a option \<times> ('tf, 'fc) SkReadBuffer)
     \<Rightarrow> bool \<times> ('tf, 'fc) SkReadBuffer \<times> 'a list" where
  "new_array_from_buffer buffer inCount array factory =
     (case validate (array = [] \<and> SkTFitsIn_int inCount) buffer of (ok, b1) \<Rightarrow>
        if \<not> ok then (False, b1, array)
        else if inCount = 0 then (True, b1, array)
        else new_array_loop factory (unat inCount) b1 array)"

text \<open>The paint loop: the slot is pushed before the read, and a failed read returns.\<close>

fun read_paints ::
  "('pn, 'pt, 'bl, 'vx, 'im, 'dr, 'tf, 'fc) readers \<Rightarrow> nat
     \<Rightarrow> ('pn, 'pt, 'bl, 'vx, 'im, 'dr, 'tf, 'fc) SkPictureData \<Rightarrow> ('tf, 'fc) SkReadBuffer
     \<Rightarrow> ('pn, 'pt, 'bl, 'vx, 'im, 'dr, 'tf, 'fc) SkPictureData \<times> ('tf, 'fc) SkReadBuffer" where
  "read_paints R 0 d b = (d, b)"
| "read_paints R (Suc n) d b =
     (case slot_read (readPaint R) b of (p, ok, b') \<Rightarrow>
        if \<not> ok then (set_fPaints (fPaints d @ [p]) d, b')
        else read_paints R n (set_fPaints (fPaints d @ [p]) d) b')"

text \<open>The path loop: the slot is pushed before the read, and an invalid buffer returns.\<close>

fun read_paths ::
  "('pn, 'pt, 'bl, 'vx, 'im, 'dr, 'tf, 'fc) readers \<Rightarrow> nat
     \<Rightarrow> ('pn, 'pt, 'bl, 'vx, 'im, 'dr, 'tf, 'fc) SkPictureData \<Rightarrow> ('tf, 'fc) SkReadBuffer
     \<Rightarrow> ('pn, 'pt, 'bl, 'vx, 'im, 'dr, 'tf, 'fc) SkPictureData \<times> ('tf, 'fc) SkReadBuffer" where
  "read_paths R 0 d b = (d, b)"
| "read_paths R (Suc n) d b =
     (case slot_read (readPath R) b of (p, ok, b') \<Rightarrow>
        if \<not> isValid b' then (set_fPaths (fPaths d @ [p]) d, b')
        else read_paths R n (set_fPaths (fPaths d @ [p]) d) b')"

text \<open>\<^verbatim>\<open>SkPictureData::parseBufferTag\<close>. It returns nothing; its effects are the new
  fields of the picture data and the new state of the buffer.\<close>

definition parseBufferTag ::
  "pict_tags \<Rightarrow> ('pn, 'pt, 'bl, 'vx, 'im, 'dr, 'tf, 'fc) readers
     \<Rightarrow> ('pn, 'pt, 'bl, 'vx, 'im, 'dr, 'tf, 'fc) SkPictureData \<Rightarrow> ('tf, 'fc) SkReadBuffer
     \<Rightarrow> u32 \<Rightarrow> u32
     \<Rightarrow> ('pn, 'pt, 'bl, 'vx, 'im, 'dr, 'tf, 'fc) SkPictureData \<times> ('tf, 'fc) SkReadBuffer" where
  "parseBufferTag T R d buffer tag sz =
     (if tag = SK_PICT_PAINT_BUFFER_TAG T then
        (case validate (SkTFitsIn_int sz) buffer of (ok, b1) \<Rightarrow>
           if \<not> ok then (d, b1) else read_paints R (unat sz) d b1)
      else if tag = SK_PICT_PATH_BUFFER_TAG T then
        (if sz > 0 then
           (case readInt buffer of (count, b1) \<Rightarrow>
              (case validate (count \<ge> 0) b1 of (ok, b2) \<Rightarrow>
                 if \<not> ok then (d, b2) else read_paths R (nat count) d b2))
         else (d, buffer))
      else if tag = SK_PICT_TEXTBLOB_BUFFER_TAG T then
        (case new_array_from_buffer buffer sz (fTextBlobs d)
                (typed_read (TextBlob_MakeFromBuffer R)) of
           (ok, b', array) \<Rightarrow> (set_fTextBlobs array d, b'))
      else if tag = SK_PICT_VERTICES_BUFFER_TAG T then
        (case new_array_from_buffer buffer sz (fVertices d)
                (create_vertices_from_buffer R) of
           (ok, b', array) \<Rightarrow> (set_fVertices array d, b'))
      else if tag = SK_PICT_IMAGE_BUFFER_TAG T then
        (case new_array_from_buffer buffer sz (fImages d) (typed_read (readImage R)) of
           (ok, b', array) \<Rightarrow> (set_fImages array d, b'))
      else if tag = SK_PICT_READER_TAG T then
        (case validateCanReadN (unat sz) buffer of (ok, b1) \<Rightarrow>
           if \<not> ok then (d, b1)
           else (case readByteArray (unat sz) b1 of
                   (None, b2) \<Rightarrow> (d, b2)
                 | (Some data, b2) \<Rightarrow>
                     (case validate (fOpData d = None) b2 of (ok', b3) \<Rightarrow>
                        if \<not> ok' then (d, b3) else (set_fOpData (Some data) d, b3))))
      else if tag = SK_PICT_PICTURE_TAG T then
        (case new_array_from_buffer buffer sz (fPictures d)
                (typed_read (Picture_MakeFromBuffer R)) of
           (ok, b', array) \<Rightarrow> (set_fPictures array d, b'))
      else if tag = SK_PICT_DRAWABLE_TAG T then
        (case new_array_from_buffer buffer sz (fDrawables d) (typed_read (readDrawable R)) of
           (ok, b', array) \<Rightarrow> (set_fDrawables array d, b'))
      else
        (case validate False buffer of (ok, b') \<Rightarrow> (d, b')))"

text \<open>
  Reading never moves the cursor backwards and never clears the flag: the order in which
  the loops over the buffer terminate.
\<close>

definition advances :: "('tf, 'fc) SkReadBuffer \<Rightarrow> ('tf, 'fc) SkReadBuffer \<Rightarrow> bool" where
  "advances b b' \<longleftrightarrow>
     length (rb_data b') \<le> length (rb_data b) \<and> (fError b \<longrightarrow> fError b')"

definition work_left :: "('tf, 'fc) SkReadBuffer \<Rightarrow> nat" where
  "work_left b = (if fError b then 0 else Suc (length (rb_data b)))"

lemma advances_refl: "advances b b"
  by (simp add: advances_def)

lemma advances_trans: "advances a b \<Longrightarrow> advances b c \<Longrightarrow> advances a c"
  by (auto simp: advances_def)

lemma validate_advances: "validate c b = (ok, b') \<Longrightarrow> advances b b'"
  by (auto simp: validate_def advances_def)

lemma validate_ok: "validate c b = (ok, b') \<Longrightarrow> ok = (\<not> fError b')"
  by (auto simp: validate_def)

lemma readU32_length: "readU32 s = Some (w, s') \<Longrightarrow> length s = length s' + 4"
  by (induction s rule: readU32.induct) auto

lemma readUInt_advances: "readUInt b = (w, b') \<Longrightarrow> advances b b'"
  by (auto simp: readUInt_def advances_def split: if_splits option.splits dest: readU32_length)

lemma readUInt_consumes:
  "readUInt b = (w, b') \<Longrightarrow> \<not> fError b' \<Longrightarrow> length (rb_data b) = length (rb_data b') + 4"
  by (auto simp: readUInt_def split: if_splits option.splits dest: readU32_length)

lemma readInt_advances: "readInt b = (i, b') \<Longrightarrow> advances b b'"
  by (auto simp: readInt_def split: prod.splits dest: readUInt_advances)

lemma typed_read_advances: "typed_read rd b = (r, b') \<Longrightarrow> advances b b'"
  by (auto simp: typed_read_def advances_def split: if_splits prod.splits option.splits)

lemma slot_read_advances: "slot_read rd b = (x, ok, b') \<Longrightarrow> advances b b'"
  by (auto simp: slot_read_def advances_def split: prod.splits)

lemma readByteArrayAsData_advances: "readByteArrayAsData b = (r, b') \<Longrightarrow> advances b b'"
  unfolding readByteArrayAsData_def
  by (auto split: prod.splits if_splits dest!: readUInt_advances validate_advances
           simp: advances_def)

lemma readByteArray_advances: "readByteArray n b = (r, b') \<Longrightarrow> advances b b'"
  unfolding readByteArray_def
  by (auto split: prod.splits if_splits dest!: readUInt_advances validate_advances
           simp: advances_def)

lemma create_vertices_advances: "create_vertices_from_buffer R b = (r, b') \<Longrightarrow> advances b b'"
  unfolding create_vertices_from_buffer_def
  by (auto split: prod.splits option.splits dest: readByteArrayAsData_advances)

lemma new_array_loop_advances:
  assumes "\<And>b r b'. factory b = (r, b') \<Longrightarrow> advances b b'"
  shows "new_array_loop factory n b array = (ok, b', array') \<Longrightarrow> advances b b'"
proof (induction n arbitrary: b array)
  case 0
  then show ?case by (simp add: advances_refl)
next
  case (Suc n)
  then show ?case
    by (auto split: prod.splits option.splits if_splits
             dest!: assms validate_advances intro: advances_trans)
qed

lemma new_array_from_buffer_advances:
  assumes "\<And>b r b'. factory b = (r, b') \<Longrightarrow> advances b b'"
    and "new_array_from_buffer b n array factory = (ok, b', array')"
  shows "advances b b'"
proof -
  obtain ok1 b1 where v: "validate (array = [] \<and> SkTFitsIn_int n) b = (ok1, b1)"
    by (cases "validate (array = [] \<and> SkTFitsIn_int n) b")
  have 1: "advances b b1" using v by (rule validate_advances)
  show ?thesis
  proof (cases "\<not> ok1 \<or> n = 0")
    case True
    then have "b' = b1" using assms(2) v
      by (auto simp: new_array_from_buffer_def split: if_splits)
    then show ?thesis using 1 by simp
  next
    case False
    then have "new_array_loop factory (unat n) b1 array = (ok, b', array')"
      using assms(2) v by (auto simp: new_array_from_buffer_def)
    then have "advances b1 b'"
      using new_array_loop_advances [of factory] assms(1) by blast
    then show ?thesis using 1 advances_trans by blast
  qed
qed

lemma new_array_typed_advances:
  "new_array_from_buffer b n array (typed_read rd) = (ok, b', array') \<Longrightarrow> advances b b'"
  using new_array_from_buffer_advances [of "typed_read rd"] typed_read_advances by blast

lemma new_array_vertices_advances:
  "new_array_from_buffer b n array (create_vertices_from_buffer R) = (ok, b', array')
     \<Longrightarrow> advances b b'"
  using new_array_from_buffer_advances [of "create_vertices_from_buffer R"]
        create_vertices_advances by blast

lemma read_paints_advances: "read_paints R n d b = (d', b') \<Longrightarrow> advances b b'"
  by (induction n arbitrary: d b)
     (auto simp: advances_refl split: prod.splits if_splits
           dest!: slot_read_advances intro: advances_trans)

lemma read_paths_advances: "read_paths R n d b = (d', b') \<Longrightarrow> advances b b'"
  by (induction n arbitrary: d b)
     (auto simp: advances_refl split: prod.splits if_splits
           dest!: slot_read_advances intro: advances_trans)

lemma parseBufferTag_advances: "parseBufferTag T R d b tag sz = (d', b') \<Longrightarrow> advances b b'"
  unfolding parseBufferTag_def validateCanReadN_def
  by (auto split: if_splits prod.splits option.splits
           dest!: validate_advances readInt_advances read_paints_advances read_paths_advances
                  readByteArray_advances new_array_typed_advances new_array_vertices_advances
           intro: advances_trans advances_refl)

text \<open>The \<^verbatim>\<open>while (!buffer.eof() && buffer.isValid())\<close> loop of the
  \<^verbatim>\<open>SK_PICT_BUFFER_SIZE_TAG\<close> case of \<^verbatim>\<open>parseStreamTag\<close>.\<close>

function parseBufferLoop ::
  "pict_tags \<Rightarrow> ('pn, 'pt, 'bl, 'vx, 'im, 'dr, 'tf, 'fc) readers
     \<Rightarrow> ('pn, 'pt, 'bl, 'vx, 'im, 'dr, 'tf, 'fc) SkPictureData \<Rightarrow> ('tf, 'fc) SkReadBuffer
     \<Rightarrow> ('pn, 'pt, 'bl, 'vx, 'im, 'dr, 'tf, 'fc) SkPictureData \<times> ('tf, 'fc) SkReadBuffer" where
  "parseBufferLoop T R d buffer =
     (if \<not> eof buffer \<and> isValid buffer then
        (case readUInt buffer of (tag, b1) \<Rightarrow>
           (case readUInt b1 of (sz, b2) \<Rightarrow>
              (case parseBufferTag T R d b2 tag sz of (d', b3) \<Rightarrow>
                 parseBufferLoop T R d' b3)))
      else (d, buffer))"
  by pat_completeness auto

lemma loop_body_decreases:
  assumes "isValid b" and "readUInt b = (tag, b1)" and "advances b1 b3"
  shows "work_left b3 < work_left b"
proof (cases "fError b3")
  case True
  then show ?thesis using assms(1) by (simp add: work_left_def isValid_def)
next
  case False
  then have "\<not> fError b1" using assms(3) by (auto simp: advances_def)
  then have "length (rb_data b) = length (rb_data b1) + 4"
    using assms(2) by (rule readUInt_consumes [rotated])
  then show ?thesis
    using assms(1,3) False by (simp add: work_left_def isValid_def advances_def)
qed

lemma loop_step_decreases:
  assumes "isValid b" and "(tag, b1) = readUInt b" and "(sz, b2) = readUInt b1"
    and "(d', b3) = parseBufferTag T R d b2 tag sz"
  shows "work_left b3 < work_left b"
proof -
  have "advances b1 b2" using assms(3) readUInt_advances [of b1 sz b2] by simp
  moreover have "advances b2 b3"
    using assms(4) parseBufferTag_advances [of T R d b2 tag sz d' b3] by simp
  ultimately have "advances b1 b3" by (rule advances_trans)
  then show ?thesis using loop_body_decreases [of b tag b1 b3] assms(1,2) by simp
qed

termination parseBufferLoop
proof (relation "measure (\<lambda>(T, R, d, b). work_left b)", goal_cases)
  case 1
  show ?case by simp
next
  case (2 T R d buffer tag b1 sz b2 d' b3)
  then have "work_left b3 < work_left buffer"
    using loop_step_decreases [of buffer tag b1 sz b2 d' b3 T R d] by simp
  then show ?case using 2(4) [symmetric] by simp
qed

declare parseBufferLoop.simps [simp del]

text \<open>\<^verbatim>\<open>SkPictureData::parseBuffer\<close>: the loop, then the check for the required tag.\<close>

function parseBuffer_loop ::
  "pict_tags \<Rightarrow> ('pn, 'pt, 'bl, 'vx, 'im, 'dr, 'tf, 'fc) readers
     \<Rightarrow> ('pn, 'pt, 'bl, 'vx, 'im, 'dr, 'tf, 'fc) SkPictureData \<Rightarrow> ('tf, 'fc) SkReadBuffer
     \<Rightarrow> ('pn, 'pt, 'bl, 'vx, 'im, 'dr, 'tf, 'fc) SkPictureData \<times> ('tf, 'fc) SkReadBuffer" where
  "parseBuffer_loop T R d buffer =
     (if isValid buffer then
        (case readUInt buffer of (tag, b1) \<Rightarrow>
           if SK_PICT_EOF_TAG T = tag then (d, b1)
           else (case readUInt b1 of (sz, b2) \<Rightarrow>
                   (case parseBufferTag T R d b2 tag sz of (d', b3) \<Rightarrow>
                      parseBuffer_loop T R d' b3)))
      else (d, buffer))"
  by pat_completeness auto

termination parseBuffer_loop
proof (relation "measure (\<lambda>(T, R, d, b). work_left b)", goal_cases)
  case 1
  show ?case by simp
next
  case (2 T R d buffer tag b1 sz b2 d' b3)
  then have "work_left b3 < work_left buffer"
    using loop_step_decreases [of buffer tag b1 sz b2 d' b3 T R d] by simp
  then show ?case using 2(5) [symmetric] by simp
qed

declare parseBuffer_loop.simps [simp del]

definition parseBuffer ::
  "pict_tags \<Rightarrow> ('pn, 'pt, 'bl, 'vx, 'im, 'dr, 'tf, 'fc) readers
     \<Rightarrow> ('pn, 'pt, 'bl, 'vx, 'im, 'dr, 'tf, 'fc) SkPictureData \<Rightarrow> ('tf, 'fc) SkReadBuffer
     \<Rightarrow> bool \<times> ('pn, 'pt, 'bl, 'vx, 'im, 'dr, 'tf, 'fc) SkPictureData \<times> ('tf, 'fc) SkReadBuffer"
  where
  "parseBuffer T R d buffer =
     (case parseBuffer_loop T R d buffer of (d', b') \<Rightarrow>
        (case validate (fOpData d' \<noteq> None) b' of (ok, b2) \<Rightarrow> (ok, d', b2)))"

text \<open>\<^verbatim>\<open>SkPictureData::CreateFromBuffer\<close>: the new picture data, or null.\<close>

definition CreateFromBuffer ::
  "pict_tags \<Rightarrow> ('pn, 'pt, 'bl, 'vx, 'im, 'dr, 'tf, 'fc) readers \<Rightarrow> ('tf, 'fc) SkReadBuffer
     \<Rightarrow> SkPictInfo
     \<Rightarrow> ('pn, 'pt, 'bl, 'vx, 'im, 'dr, 'tf, 'fc) SkPictureData option \<times> ('tf, 'fc) SkReadBuffer"
  where
  "CreateFromBuffer T R buffer info =
     (case parseBuffer T R (new_SkPictureData info) (buffer\<lparr>rb_version := fVersion info\<rparr>) of
        (ok, d, b') \<Rightarrow> if \<not> ok then (None, b') else (Some d, b'))"

section \<open>The outer loop: sections of the stream\<close>

text \<open>
  A decode either yields a value or fails. \<open>Invalid\<close> is the \<^verbatim>\<open>false\<close> (or null) the
  code returns for an invalid archive; \<open>NullDeref\<close> marks a call through a null
  pointer, which the code does not guard against.
\<close>

datatype error = Invalid | NullDeref

text \<open>
  The argument \<^verbatim>\<open>SkTypefacePlayback* topLevelTFPlayback\<close>: null, a pointer to the
  \<open>fTFPlayback\<close> of the picture data being parsed (so that it sees the table as the
  TYPEFACE section fills it), or a pointer to the table of an enclosing picture (which
  does not change while a sub-picture is parsed).
\<close>

datatype 'tf tf_ptr = NullPtr | OwnTable | Extern "'tf option list"

text \<open>The same pointer as a sub-picture receives it: the parent's own table is a table
  of an enclosing picture there.\<close>

definition pass_ptr ::
  "'tf tf_ptr \<Rightarrow> ('pn, 'pt, 'bl, 'vx, 'im, 'dr, 'tf, 'fc) SkPictureData \<Rightarrow> 'tf tf_ptr" where
  "pass_ptr p d = (case p of OwnTable \<Rightarrow> Extern (fTFPlayback d) | _ \<Rightarrow> p)"

text \<open>\<^verbatim>\<open>str.c_str()\<close> ends at the first zero byte.\<close>

definition c_str :: "byte list \<Rightarrow> byte list" where
  "c_str bs = takeWhile (\<lambda>b. b \<noteq> 0) bs"

text \<open>The loop of the \<^verbatim>\<open>SK_PICT_FACTORY_TAG\<close> case: a packed length and that many
  bytes of name for each entry, resolved in the global registry.\<close>

fun read_factories ::
  "('pn, 'pt, 'bl, 'vx, 'im, 'dr, 'tf, 'fc) readers \<Rightarrow> nat \<Rightarrow> byte list
     \<Rightarrow> ('fc option list \<times> byte list) option" where
  "read_factories R 0 s = Some ([], s)"
| "read_factories R (Suc n) s =
     (case readPackedUInt s of
        None \<Rightarrow> None
      | Some (len, s1) \<Rightarrow>
          if length s1 < len then None
          else (case read_factories R n (drop len s1) of
                  None \<Rightarrow> None
                | Some (fs, s2) \<Rightarrow> Some (NameToFactory R (c_str (take len s1)) # fs, s2)))"

text \<open>The loop of the \<^verbatim>\<open>SK_PICT_TYPEFACE_TAG\<close> case, with the number of entries still
  to read and the index \<open>i\<close>: a typeface that fails to deserialize is replaced by the
  default one.\<close>

fun read_typefaces ::
  "('pn, 'pt, 'bl, 'vx, 'im, 'dr, 'tf, 'fc) readers \<Rightarrow> nat \<Rightarrow> nat \<Rightarrow> 'tf option list
     \<Rightarrow> byte list \<Rightarrow> 'tf option list \<times> byte list" where
  "read_typefaces R 0 i tab s = (tab, s)"
| "read_typefaces R (Suc n) i tab s =
     (case Typeface_MakeDeserialize R s of (tf, k) \<Rightarrow>
        read_typefaces R n (Suc i)
          (tab[i := Some (case tf of None \<Rightarrow> Typeface_MakeDefault R | Some t \<Rightarrow> t)])
          (drop k s))"

text \<open>
  The loop of the \<^verbatim>\<open>SK_PICT_PICTURE_TAG\<close> case. \<^verbatim>\<open>SkPicture::MakeFromStream\<close> is not
  part of the sources at hand; it is the parameter \<open>mk\<close>, which answers with the
  sub-picture and the number of bytes it took, or with null.
\<close>

fun read_pictures ::
  "(byte list \<Rightarrow> 'tf tf_ptr
      \<Rightarrow> (('pn, 'pt, 'bl, 'vx, 'im, 'dr, 'tf, 'fc) SkPictureData \<times> nat) option)
     \<Rightarrow> nat \<Rightarrow> 'tf tf_ptr \<Rightarrow> ('pn, 'pt, 'bl, 'vx, 'im, 'dr, 'tf, 'fc) SkPictureData
     \<Rightarrow> byte list
     \<Rightarrow> error + ('pn, 'pt, 'bl, 'vx, 'im, 'dr, 'tf, 'fc) SkPictureData \<times> byte list" where
  "read_pictures mk 0 p d s = Inr (d, s)"
| "read_pictures mk (Suc n) p d s =
     (case mk s p of
        None \<Rightarrow> Inl Invalid
      | Some (pic, k) \<Rightarrow>
          read_pictures mk n p (set_fPictures (fPictures d @ [pic]) d) (drop k s))"

text \<open>
  The set-up of the read buffer in the \<^verbatim>\<open>SK_PICT_BUFFER_SIZE_TAG\<close> case (from the
  construction of \<^verbatim>\<open>buffer\<close> to the choice of the typeface playback).
\<close>

definition setup_buffer ::
  "('pn, 'pt, 'bl, 'vx, 'im, 'dr, 'tf, 'fc) SkPictureData \<Rightarrow> byte list \<Rightarrow> 'tf tf_ptr
     \<Rightarrow> error + ('tf, 'fc) SkReadBuffer" where
  "setup_buffer d storage topLevelTFPlayback =
     (let buffer = (new_SkReadBuffer storage)\<lparr>rb_version := fVersion (fInfo d)\<rparr> in
      case fFactoryPlayback d of
        None \<Rightarrow> Inl Invalid
      | Some fp \<Rightarrow>
          (let buffer = buffer\<lparr>fFactoryArray := fp\<rparr> in
           if length (fTFPlayback d) > 0 then Inr (buffer\<lparr>fTFArray := fTFPlayback d\<rparr>)
           else (case topLevelTFPlayback of
                   NullPtr \<Rightarrow> Inl NullDeref
                 | OwnTable \<Rightarrow> Inr (buffer\<lparr>fTFArray := fTFPlayback d\<rparr>)
                 | Extern tab \<Rightarrow> Inr (buffer\<lparr>fTFArray := tab\<rparr>))))"

text \<open>\<^verbatim>\<open>SkPictureData::parseStreamTag\<close>. \<open>Inr\<close> is \<^verbatim>\<open>return true\<close>, with the new
  fields of the picture data and the unread rest of the stream.\<close>

definition parseStreamTag ::
  "pict_tags \<Rightarrow> ('pn, 'pt, 'bl, 'vx, 'im, 'dr, 'tf, 'fc) readers
     \<Rightarrow> (byte list \<Rightarrow> 'tf tf_ptr
           \<Rightarrow> (('pn, 'pt, 'bl, 'vx, 'im, 'dr, 'tf, 'fc) SkPictureData \<times> nat) option)
     \<Rightarrow> ('pn, 'pt, 'bl, 'vx, 'im, 'dr, 'tf, 'fc) SkPictureData \<Rightarrow> byte list \<Rightarrow> u32 \<Rightarrow> u32
     \<Rightarrow> 'tf tf_ptr
     \<Rightarrow> error + ('pn, 'pt, 'bl, 'vx, 'im, 'dr, 'tf, 'fc) SkPictureData \<times> byte list" where
  "parseStreamTag T R mk d stream tag sz topLevelTFPlayback =
     (if tag = SK_PICT_READER_TAG T then
        (if length stream < unat sz then Inl Invalid
         else Inr (set_fOpData (Some (take (unat sz) stream)) d, drop (unat sz) stream))
      else if tag = SK_PICT_FACTORY_TAG T then
        (case readU32 stream of
           None \<Rightarrow> Inl Invalid
         | Some (count, s1) \<Rightarrow>
             (case read_factories R (unat count) s1 of
                None \<Rightarrow> Inl Invalid
              | Some (fs, s2) \<Rightarrow> Inr (set_fFactoryPlayback (Some fs) d, s2)))
      else if tag = SK_PICT_TYPEFACE_TAG T then
        (let count = sint sz in
         case read_typefaces R (nat count) 0 (replicate (nat count) None) stream of
           (tab, s1) \<Rightarrow> Inr (set_fTFPlayback tab d, s1))
      else if tag = SK_PICT_PICTURE_TAG T then
        read_pictures mk (unat sz) (pass_ptr topLevelTFPlayback d) d stream
      else if tag = SK_PICT_BUFFER_SIZE_TAG T then
        (if length stream < unat sz then Inl Invalid
         else (case setup_buffer d (take (unat sz) stream) topLevelTFPlayback of
                 Inl e \<Rightarrow> Inl e
               | Inr buffer \<Rightarrow>
                   (case parseBufferLoop T R d buffer of (d', b') \<Rightarrow>
                      if \<not> isValid b' then Inl Invalid
                      else Inr (d', drop (unat sz) stream))))
      else Inr (d, stream))"

lemma readPackedUInt_length: "readPackedUInt s = Some (n, s') \<Longrightarrow> length s' < length s"
  by (cases s) (auto split: if_splits option.splits dest: readU32_length)

lemma read_factories_length: "read_factories R n s = Some (fs, s') \<Longrightarrow> length s' \<le> length s"
proof (induction n arbitrary: s fs)
  case 0
  then show ?case by simp
next
  case (Suc n)
  then show ?case
    by (fastforce split: option.splits if_splits dest: readPackedUInt_length)
qed

lemma read_typefaces_length: "read_typefaces R n i tab s = (tab', s') \<Longrightarrow> length s' \<le> length s"
proof (induction n arbitrary: i tab s)
  case 0
  then show ?case by simp
next
  case (Suc n)
  then show ?case by (fastforce split: prod.splits)
qed

lemma read_pictures_length: "read_pictures mk n p d s = Inr (d', s') \<Longrightarrow> length s' \<le> length s"
proof (induction n arbitrary: d s)
  case 0
  then show ?case by simp
next
  case (Suc n)
  then show ?case by (fastforce split: option.splits)
qed

lemma parseStreamTag_length:
  "parseStreamTag T R mk d s tag sz p = Inr (d', s') \<Longrightarrow> length s' \<le> length s"
  unfolding parseStreamTag_def
  by (auto split: if_splits option.splits sum.splits prod.splits simp: Let_def
           dest!: readU32_length read_factories_length read_typefaces_length
                  read_pictures_length)

text \<open>\<^verbatim>\<open>SkPictureData::parseStream\<close>: the loop ends at the EOF tag.\<close>

function parseStream ::
  "pict_tags \<Rightarrow> ('pn, 'pt, 'bl, 'vx, 'im, 'dr, 'tf, 'fc) readers
     \<Rightarrow> (byte list \<Rightarrow> 'tf tf_ptr
           \<Rightarrow> (('pn, 'pt, 'bl, 'vx, 'im, 'dr, 'tf, 'fc) SkPictureData \<times> nat) option)
     \<Rightarrow> ('pn, 'pt, 'bl, 'vx, 'im, 'dr, 'tf, 'fc) SkPictureData \<Rightarrow> byte list \<Rightarrow> 'tf tf_ptr
     \<Rightarrow> error + ('pn, 'pt, 'bl, 'vx, 'im, 'dr, 'tf, 'fc) SkPictureData \<times> byte list" where
  "parseStream T R mk d stream topLevelTFPlayback =
     (case readU32 stream of
        None \<Rightarrow> Inl Invalid
      | Some (tag, s1) \<Rightarrow>
          if SK_PICT_EOF_TAG T = tag then Inr (d, s1)
          else (case readU32 s1 of
                  None \<Rightarrow> Inl Invalid
                | Some (sz, s2) \<Rightarrow>
                    (case parseStreamTag T R mk d s2 tag sz topLevelTFPlayback of
                       Inl e \<Rightarrow> Inl e
                     | Inr (d', s3) \<Rightarrow> parseStream T R mk d' s3 topLevelTFPlayback)))"
  by pat_completeness auto

termination parseStream
proof (relation "measure (\<lambda>(T, R, mk, d, s, p). length s)", goal_cases)
  case 1
  show ?case by simp
next
  case (2 T R mk d stream p x tag s1 y sz s2 r d' s3)
  have "length stream = length s1 + 4" using 2(1,2) readU32_length [of stream tag s1] by simp
  moreover have "length s1 = length s2 + 4" using 2(4,5) readU32_length [of s1 sz s2] by simp
  moreover have "length s3 \<le> length s2"
    using 2(6,7) parseStreamTag_length [of T R mk d s2 tag sz p d' s3] by simp
  ultimately show ?case by simp
qed

declare parseStream.simps [simp del]

text \<open>\<^verbatim>\<open>SkPictureData::CreateFromStream\<close>: \<open>Inl Invalid\<close> is the null it returns.\<close>

definition CreateFromStream ::
  "pict_tags \<Rightarrow> ('pn, 'pt, 'bl, 'vx, 'im, 'dr, 'tf, 'fc) readers
     \<Rightarrow> (byte list \<Rightarrow> 'tf tf_ptr
           \<Rightarrow> (('pn, 'pt, 'bl, 'vx, 'im, 'dr, 'tf, 'fc) SkPictureData \<times> nat) option)
     \<Rightarrow> byte list \<Rightarrow> SkPictInfo \<Rightarrow> 'tf tf_ptr
     \<Rightarrow> error + ('pn, 'pt, 'bl, 'vx, 'im, 'dr, 'tf, 'fc) SkPictureData \<times> byte list" where
  "CreateFromStream T R mk stream info topLevelTFPlayback =
     parseStream T R mk (new_SkPictureData info) stream
       (if topLevelTFPlayback = NullPtr then OwnTable else topLevelTFPlayback)"

section \<open>Facts about the primitives\<close>

lemma le32_write32:
  "le32 (ucast w) (ucast (drop_bit 8 w)) (ucast (drop_bit 16 w)) (ucast (drop_bit 24 w)) = (w::u32)"
  unfolding le32_def
proof (rule bit_word_eqI)
  fix n :: nat
  assume "n < LENGTH(32)"
  then show "bit (ucast (ucast w :: byte) OR push_bit 8 (ucast (ucast (drop_bit 8 w) :: byte))
               OR push_bit 16 (ucast (ucast (drop_bit 16 w) :: byte))
               OR push_bit 24 (ucast (ucast (drop_bit 24 w) :: byte)) :: u32) n = bit w n"
    by (cases "n < 8"; cases "n < 16"; cases "n < 24") (auto simp: bit_simps not_less)
qed

lemma readU32_write32 [simp]: "readU32 (write32 w @ s) = Some (w, s)"
  by (simp add: write32_def le32_write32)

lemma length_write32 [simp]: "length (write32 w) = 4"
  by (simp add: write32_def)

lemma tags_distinct_outer:
  assumes "tags_distinct T"
  shows "SK_PICT_FACTORY_TAG T \<noteq> SK_PICT_READER_TAG T"
    and "SK_PICT_TYPEFACE_TAG T \<noteq> SK_PICT_READER_TAG T"
    and "SK_PICT_TYPEFACE_TAG T \<noteq> SK_PICT_FACTORY_TAG T"
    and "SK_PICT_PICTURE_TAG T \<noteq> SK_PICT_READER_TAG T"
    and "SK_PICT_PICTURE_TAG T \<noteq> SK_PICT_FACTORY_TAG T"
    and "SK_PICT_PICTURE_TAG T \<noteq> SK_PICT_TYPEFACE_TAG T"
    and "SK_PICT_BUFFER_SIZE_TAG T \<noteq> SK_PICT_READER_TAG T"
    and "SK_PICT_BUFFER_SIZE_TAG T \<noteq> SK_PICT_FACTORY_TAG T"
    and "SK_PICT_BUFFER_SIZE_TAG T \<noteq> SK_PICT_TYPEFACE_TAG T"
    and "SK_PICT_BUFFER_SIZE_TAG T \<noteq> SK_PICT_PICTURE_TAG T"
    and "SK_PICT_EOF_TAG T \<notin> set (outer_tags T)"
  using assms by (auto simp: tags_distinct_def tag_list_def outer_tags_def)

lemma tags_distinct_inner:
  assumes "tags_distinct T"
  shows "distinct (inner_tags T)" and "SK_PICT_EOF_TAG T \<notin> set (inner_tags T)"
  using assms by (auto simp: tags_distinct_def tag_list_def inner_tags_def)

lemma four_cc_tags_distinct: "tags_distinct four_cc_tags"
  by (simp add: tags_distinct_def tag_list_def four_cc_tags_def)

lemma parseBufferLoop_invalid: "fError b \<Longrightarrow> parseBufferLoop T R d b = (d, b)"
  by (simp add: parseBufferLoop.simps [of T R d b] isValid_def)

lemma parseBufferLoop_eof: "rb_data b = [] \<Longrightarrow> parseBufferLoop T R d b = (d, b)"
  by (simp add: parseBufferLoop.simps [of T R d b] eof_def)

lemma parseBufferTag_unknown:
  "tag \<notin> set (inner_tags T) \<Longrightarrow> parseBufferTag T R d b tag sz = (d, b\<lparr>fError := True\<rparr>)"
  by (simp add: parseBufferTag_def inner_tags_def validate_def)

lemma parseStreamTag_unknown:
  "tag \<notin> set (outer_tags T) \<Longrightarrow> parseStreamTag T R mk d s tag sz p = Inr (d, s)"
  by (simp add: parseStreamTag_def outer_tags_def)

lemma readUInt_sticky: "fError b \<Longrightarrow> readUInt b = (0, b)"
  by (simp add: readUInt_def)

lemma read_pictures_no_deref: "read_pictures mk n p d s \<noteq> Inl NullDeref"
  by (induction n arbitrary: d s) (auto split: option.splits)

lemma setup_buffer_no_deref: "p \<noteq> NullPtr \<Longrightarrow> setup_buffer d storage p \<noteq> Inl NullDeref"
  by (cases p) (auto simp: setup_buffer_def Let_def split: option.splits)

lemma parseStreamTag_no_deref:
  "p \<noteq> NullPtr \<Longrightarrow> parseStreamTag T R mk d s tag sz p \<noteq> Inl NullDeref"
  using read_pictures_no_deref [of mk "unat sz" "pass_ptr p d" d s]
        setup_buffer_no_deref [of p d "take (unat sz) s"]
  by (auto simp: parseStreamTag_def Let_def split: option.splits prod.splits sum.splits)

lemma parseStream_no_deref:
  "p \<noteq> NullPtr \<Longrightarrow> parseStream T R mk d s p \<noteq> Inl NullDeref"
proof (induction T R mk d s p rule: parseStream.induct)
  case (1 T R mk d stream p)
  show ?case
  proof (cases "readU32 stream")
    case None
    then show ?thesis by (simp add: parseStream.simps [of T R mk d stream p])
  next
    case (Some a)
    obtain tag s1 where a: "a = (tag, s1)" by (cases a)
    show ?thesis
    proof (cases "SK_PICT_EOF_TAG T = tag")
      case True
      then show ?thesis using Some a by (simp add: parseStream.simps [of T R mk d stream p])
    next
      case notEOF: False
      show ?thesis
      proof (cases "readU32 s1")
        case None
        then show ?thesis
          using Some a notEOF by (simp add: parseStream.simps [of T R mk d stream p])
      next
        case Some2: (Some c)
        obtain sz s2 where c: "c = (sz, s2)" by (cases c)
        show ?thesis
        proof (cases "parseStreamTag T R mk d s2 tag sz p")
          case (Inl e)
          then have "e \<noteq> NullDeref" using parseStreamTag_no_deref [OF "1.prems"] by metis
          then show ?thesis
            using Some a notEOF Some2 c Inl
            by (simp add: parseStream.simps [of T R mk d stream p])
        next
          case (Inr r)
          obtain d' s3 where r: "r = (d', s3)" by (cases r)
          have "parseStream T R mk d' s3 p \<noteq> Inl NullDeref"
            using "1.IH" [OF Some a [symmetric] notEOF Some2 c [symmetric] Inr r [symmetric]]
                  "1.prems" by simp
          then show ?thesis
            using Some a notEOF Some2 c Inr r
            by (simp add: parseStream.simps [of T R mk d stream p])
        qed
      qed
    qed
  qed
qed

section \<open>Concrete collaborators for concrete inputs\<close>

text \<open>
  One instance of the black boxes, for evaluating the code on concrete streams: every
  resource is one byte. A typeface, a text blob, an image and a drawable are stored as
  that byte; a paint and a path are stored as the 32-bit index of a typeface and are read
  back through the typeface playback of the buffer; vertices are a byte array of length one;
  a factory is named by the first byte of its name.
\<close>

definition read_byte :: "('tf, 'fc) SkReadBuffer \<Rightarrow> byte option \<times> nat" where
  "read_byte b = (case rb_data b of [] \<Rightarrow> (None, 0) | x # _ \<Rightarrow> (Some x, 1))"

definition read_tf_index :: "(byte, 'fc) SkReadBuffer \<Rightarrow> byte \<times> bool \<times> nat" where
  "read_tf_index b =
     (case readU32 (rb_data b) of
        None \<Rightarrow> (0, False, 0)
      | Some (i, rest) \<Rightarrow>
          if unat i < length (fTFArray b)
          then (case fTFArray b ! unat i of None \<Rightarrow> (0, False, 4) | Some t \<Rightarrow> (t, True, 4))
          else (0, False, 4))"

definition ex_readers :: "(byte, byte, byte, byte, byte, byte, byte, byte) readers" where
  "ex_readers =
     \<lparr>Typeface_MakeDeserialize = (\<lambda>s. case s of [] \<Rightarrow> (None, 0) | x # _ \<Rightarrow> (Some x, 1)),
      Typeface_MakeDefault = 255,
      NameToFactory = (\<lambda>name. case name of [] \<Rightarrow> None | x # _ \<Rightarrow> Some x),
      readPaint = read_tf_index,
      readPath = read_tf_index,
      TextBlob_MakeFromBuffer = read_byte,
      Vertices_Decode = (\<lambda>bs. case bs of [x] \<Rightarrow> Some x | _ \<Rightarrow> None),
      readImage = read_byte,
      readDrawable = read_byte,
      Picture_MakeFromBuffer = (\<lambda>b. (None, 0))\<rparr>"

text \<open>A stream reader for sub-pictures that finds none.\<close>

definition no_pictures ::
  "byte list \<Rightarrow> byte tf_ptr
     \<Rightarrow> ((byte, byte, byte, byte, byte, byte, byte, byte) SkPictureData \<times> nat) option" where
  "no_pictures s p = None"

definition v50 :: SkPictInfo where
  "v50 = \<lparr>fVersion = 50\<rparr>"

definition empty_v50 :: "(byte, byte, byte, byte, byte, byte, byte, byte) SkPictureData" where
  "empty_v50 = new_SkPictureData v50"

section \<open>The claims\<close>

text \<open>
  C2. An input that reaches EOF without a READER section is said to decode to null
  through both entry points. The buffer entry point does so: \<^verbatim>\<open>parseBuffer\<close> ends with
  the check that the op data is not null. The stream entry point does not:
  \<^verbatim>\<open>parseStream\<close> returns true at the EOF tag without that check, so the stream that
  holds the EOF tag only gives a picture data whose op data is null.
\<close>

theorem eof_only_stream_is_accepted:
  "CreateFromStream T R mk (write32 (SK_PICT_EOF_TAG T)) info NullPtr
     = Inr (new_SkPictureData info, [])
   \<and> fOpData (fst (projr (CreateFromStream T R mk (write32 (SK_PICT_EOF_TAG T)) info NullPtr)))
     = None
   \<and> fst (CreateFromBuffer T R (new_SkReadBuffer (write32 (SK_PICT_EOF_TAG T))) info) = None"
proof -
  have 1: "CreateFromStream T R mk (write32 (SK_PICT_EOF_TAG T)) info NullPtr
             = Inr (new_SkPictureData info, [])"
    using readU32_write32 [of "SK_PICT_EOF_TAG T" "[]"]
    by (simp add: CreateFromStream_def parseStream.simps [of T R mk _ "write32 (SK_PICT_EOF_TAG T)"])
  have 2: "readUInt ((new_SkReadBuffer (write32 (SK_PICT_EOF_TAG T)))\<lparr>rb_version := v\<rparr>)
             = (SK_PICT_EOF_TAG T,
                (new_SkReadBuffer (write32 (SK_PICT_EOF_TAG T)))\<lparr>rb_version := v, rb_data := []\<rparr>)"
    for v :: u32
    using readU32_write32 [of "SK_PICT_EOF_TAG T" "[]"]
    by (simp add: readUInt_def new_SkReadBuffer_def)
  have 3: "fst (CreateFromBuffer T R (new_SkReadBuffer (write32 (SK_PICT_EOF_TAG T))) info) = None"
    by (simp add: CreateFromBuffer_def parseBuffer_def parseBuffer_loop.simps [of T R] 2
                  isValid_def validate_def new_SkPictureData_def)
  show ?thesis using 1 3 by (simp add: new_SkPictureData_def)
qed

text \<open>
  One turn of the loop of \<^verbatim>\<open>parseStream\<close> that dispatches a section and goes on:
  the tag that was dispatched and the state the loop continues with.
\<close>

definition section_step ::
  "pict_tags \<Rightarrow> ('pn, 'pt, 'bl, 'vx, 'im, 'dr, 'tf, 'fc) readers
     \<Rightarrow> (byte list \<Rightarrow> 'tf tf_ptr
           \<Rightarrow> (('pn, 'pt, 'bl, 'vx, 'im, 'dr, 'tf, 'fc) SkPictureData \<times> nat) option)
     \<Rightarrow> 'tf tf_ptr \<Rightarrow> ('pn, 'pt, 'bl, 'vx, 'im, 'dr, 'tf, 'fc) SkPictureData \<times> byte list
     \<Rightarrow> (u32 \<times> ('pn, 'pt, 'bl, 'vx, 'im, 'dr, 'tf, 'fc) SkPictureData \<times> byte list) option"
  where
  "section_step T R mk p x =
     (case readU32 (snd x) of
        None \<Rightarrow> None
      | Some (tag, s1) \<Rightarrow>
          if SK_PICT_EOF_TAG T = tag then None
          else (case readU32 s1 of
                  None \<Rightarrow> None
                | Some (sz, s2) \<Rightarrow>
                    (case parseStreamTag T R mk (fst x) s2 tag sz p of
                       Inl e \<Rightarrow> None
                     | Inr y \<Rightarrow> Some (tag, y))))"

text \<open>The loop gets from state \<open>x\<close> to state \<open>y\<close> through a section that is not a
  FACTORY section.\<close>

definition other_section ::
  "pict_tags \<Rightarrow> ('pn, 'pt, 'bl, 'vx, 'im, 'dr, 'tf, 'fc) readers
     \<Rightarrow> (byte list \<Rightarrow> 'tf tf_ptr
           \<Rightarrow> (('pn, 'pt, 'bl, 'vx, 'im, 'dr, 'tf, 'fc) SkPictureData \<times> nat) option)
     \<Rightarrow> 'tf tf_ptr \<Rightarrow> ('pn, 'pt, 'bl, 'vx, 'im, 'dr, 'tf, 'fc) SkPictureData \<times> byte list
     \<Rightarrow> ('pn, 'pt, 'bl, 'vx, 'im, 'dr, 'tf, 'fc) SkPictureData \<times> byte list \<Rightarrow> bool" where
  "other_section T R mk p x y =
     (case section_step T R mk p x of
        None \<Rightarrow> False
      | Some (tag, y') \<Rightarrow> tag \<noteq> SK_PICT_FACTORY_TAG T \<and> y' = y)"

lemma section_step_parseStream:
  "section_step T R mk p (d, s) = Some (tag, d', s')
     \<Longrightarrow> parseStream T R mk d s p = parseStream T R mk d' s' p"
  by (auto simp: section_step_def parseStream.simps [of T R mk d s p]
           split: option.splits if_splits sum.splits)

lemma read_pictures_keeps_factories:
  "read_pictures mk n q d s = Inr (d', s') \<Longrightarrow> fFactoryPlayback d' = fFactoryPlayback d"
proof (induction n arbitrary: d s)
  case 0
  then show ?case by simp
next
  case (Suc n)
  then show ?case by (cases d) (auto split: option.splits)
qed

lemma other_tags_keep_no_factories:
  assumes "tag \<noteq> SK_PICT_FACTORY_TAG T" and "fFactoryPlayback d = None"
    and "parseStreamTag T R mk d s tag sz p = Inr (d', s')"
  shows "fFactoryPlayback d' = None"
  using assms read_pictures_keeps_factories [of mk "unat sz" "pass_ptr p d" d s d' s']
  by (cases d)
     (auto simp: parseStreamTag_def setup_buffer_def Let_def split: if_splits prod.splits)

lemma other_section_invariant:
  assumes "other_section T R mk p (d, s) (d', s')" and "fFactoryPlayback d = None"
  shows "fFactoryPlayback d' = None \<and> parseStream T R mk d s p = parseStream T R mk d' s' p"
proof -
  obtain tag where st: "section_step T R mk p (d, s) = Some (tag, d', s')"
    and tag: "tag \<noteq> SK_PICT_FACTORY_TAG T"
    using assms(1) by (auto simp: other_section_def split: option.splits)
  obtain sz s2 where "parseStreamTag T R mk d s2 tag sz p = Inr (d', s')"
    using st by (auto simp: section_step_def split: option.splits if_splits sum.splits)
  then have "fFactoryPlayback d' = None"
    using other_tags_keep_no_factories [OF tag assms(2)] by blast
  then show ?thesis using section_step_parseStream [OF st] by simp
qed

lemma other_sections_invariant:
  assumes "(other_section T R mk p)\<^sup>*\<^sup>* x y" and "fFactoryPlayback (fst x) = None"
  shows "fFactoryPlayback (fst y) = None
    \<and> parseStream T R mk (fst x) (snd x) p = parseStream T R mk (fst y) (snd y) p"
  using assms
proof (induction rule: rtranclp_induct)
  case base
  then show ?case by simp
next
  case (step y z)
  then show ?case
    using other_section_invariant [of T R mk p "fst y" "snd y" "fst z" "snd z"] by simp
qed

text \<open>
  C7. Whenever the loop of \<^verbatim>\<open>parseStream\<close>, started by \<^verbatim>\<open>CreateFromStream\<close>, gets to a
  BUFFER_SIZE section through sections none of which is a FACTORY section, no factory
  playback has been built, the handler of the BUFFER_SIZE section returns false, and
  \<^verbatim>\<open>CreateFromStream\<close> returns null.
\<close>

theorem buffer_size_without_factory:
  assumes "tags_distinct T"
    and "q = (if p = NullPtr then OwnTable else p)"
    and "(other_section T R mk q)\<^sup>*\<^sup>* (new_SkPictureData info, stream)
           (d, write32 (SK_PICT_BUFFER_SIZE_TAG T) @ write32 sz @ rest)"
  shows "fFactoryPlayback d = None
    \<and> parseStreamTag T R mk d rest (SK_PICT_BUFFER_SIZE_TAG T) sz q = Inl Invalid
    \<and> CreateFromStream T R mk stream info p = Inl Invalid"
proof -
  have inv: "fFactoryPlayback d = None
    \<and> parseStream T R mk (new_SkPictureData info) stream q
        = parseStream T R mk d (write32 (SK_PICT_BUFFER_SIZE_TAG T) @ write32 sz @ rest) q"
    using other_sections_invariant [OF assms(3)] by (simp add: new_SkPictureData_def)
  have 1: "parseStreamTag T R mk d rest (SK_PICT_BUFFER_SIZE_TAG T) sz q = Inl Invalid"
    using tags_distinct_outer [OF assms(1)] inv
    by (simp add: parseStreamTag_def setup_buffer_def)
  have ne: "SK_PICT_EOF_TAG T \<noteq> SK_PICT_BUFFER_SIZE_TAG T"
    using tags_distinct_outer(11) [OF assms(1)] by (auto simp: outer_tags_def)
  have "parseStream T R mk d (write32 (SK_PICT_BUFFER_SIZE_TAG T) @ write32 sz @ rest) q
          = Inl Invalid"
    using ne 1
    by (simp add: parseStream.simps [of T R mk d "write32 (SK_PICT_BUFFER_SIZE_TAG T) @ _"])
  then have "CreateFromStream T R mk stream info p = Inl Invalid"
    using inv assms(2) by (simp add: CreateFromStream_def)
  then show ?thesis using inv 1 by simp
qed

text \<open>A stream with an empty READER section and then a BUFFER_SIZE section.\<close>

theorem buffer_size_without_factory_witness:
  "tags_distinct four_cc_tags
   \<and> OwnTable = (if (NullPtr :: byte tf_ptr) = NullPtr then OwnTable else NullPtr)
   \<and> (other_section four_cc_tags ex_readers no_pictures OwnTable)\<^sup>*\<^sup>*
        (new_SkPictureData v50,
         write32 (SK_PICT_READER_TAG four_cc_tags) @ write32 0
           @ write32 (SK_PICT_BUFFER_SIZE_TAG four_cc_tags) @ write32 0 @ [])
        (set_fOpData (Some []) empty_v50,
         write32 (SK_PICT_BUFFER_SIZE_TAG four_cc_tags) @ write32 0 @ [])
   \<and> CreateFromStream four_cc_tags ex_readers no_pictures
        (write32 (SK_PICT_READER_TAG four_cc_tags) @ write32 0
           @ write32 (SK_PICT_BUFFER_SIZE_TAG four_cc_tags) @ write32 0 @ []) v50 NullPtr
        = Inl Invalid"
proof -
  have d: "tags_distinct four_cc_tags" by (rule four_cc_tags_distinct)
  have q: "OwnTable = (if (NullPtr :: byte tf_ptr) = NullPtr then OwnTable else NullPtr)"
    by simp
  have ne: "SK_PICT_EOF_TAG four_cc_tags \<noteq> SK_PICT_READER_TAG four_cc_tags"
       "SK_PICT_READER_TAG four_cc_tags \<noteq> SK_PICT_FACTORY_TAG four_cc_tags"
    by (simp_all add: four_cc_tags_def)
  have "other_section four_cc_tags ex_readers no_pictures OwnTable
          (new_SkPictureData v50,
           write32 (SK_PICT_READER_TAG four_cc_tags) @ write32 0
             @ write32 (SK_PICT_BUFFER_SIZE_TAG four_cc_tags) @ write32 0 @ [])
          (set_fOpData (Some []) empty_v50,
           write32 (SK_PICT_BUFFER_SIZE_TAG four_cc_tags) @ write32 0 @ [])"
    using ne by (simp add: other_section_def section_step_def parseStreamTag_def empty_v50_def)
  then have r: "(other_section four_cc_tags ex_readers no_pictures OwnTable)\<^sup>*\<^sup>*
          (new_SkPictureData v50,
           write32 (SK_PICT_READER_TAG four_cc_tags) @ write32 0
             @ write32 (SK_PICT_BUFFER_SIZE_TAG four_cc_tags) @ write32 0 @ [])
          (set_fOpData (Some []) empty_v50,
           write32 (SK_PICT_BUFFER_SIZE_TAG four_cc_tags) @ write32 0 @ [])"
    by (rule r_into_rtranclp)
  show ?thesis using buffer_size_without_factory [OF d q r] d q r by simp
qed

text \<open>
  C9. For an unknown tag the handler of the outer loop returns true without reading
  anything: the loop goes on with the first byte of what the section declared as its
  payload, which is read as the next tag.
\<close>

theorem unknown_outer_tag_payload_not_skipped:
  assumes "tag \<notin> set (outer_tags T)" and "tag \<noteq> SK_PICT_EOF_TAG T"
  shows "parseStreamTag T R mk d payload tag sz p = Inr (d, payload)
    \<and> parseStream T R mk d (write32 tag @ write32 sz @ payload) p
        = parseStream T R mk d payload p"
  using assms parseStreamTag_unknown [OF assms(1), of R mk d payload sz p]
  by (simp add: parseStream.simps [of T R mk d "write32 tag @ write32 sz @ payload" p])

theorem unknown_outer_tag_payload_not_skipped_witness:
  "0x12345678 \<notin> set (outer_tags four_cc_tags) \<and> 0x12345678 \<noteq> SK_PICT_EOF_TAG four_cc_tags
   \<and> parseStream four_cc_tags ex_readers no_pictures empty_v50
        (write32 0x12345678 @ write32 4 @ write32 (SK_PICT_EOF_TAG four_cc_tags)) OwnTable
      = Inr (empty_v50, [])"
proof -
  have o: "0x12345678 \<notin> set (outer_tags four_cc_tags)"
    by (simp add: outer_tags_def four_cc_tags_def)
  have e: "0x12345678 \<noteq> SK_PICT_EOF_TAG four_cc_tags"
    by (simp add: four_cc_tags_def)
  have "parseStream four_cc_tags ex_readers no_pictures empty_v50
          (write32 (SK_PICT_EOF_TAG four_cc_tags)) OwnTable = Inr (empty_v50, [])"
    using readU32_write32 [of "SK_PICT_EOF_TAG four_cc_tags" "[]"]
    by (simp add: parseStream.simps
                    [of four_cc_tags ex_readers no_pictures empty_v50
                        "write32 (SK_PICT_EOF_TAG four_cc_tags)"])
  then show ?thesis
    using unknown_outer_tag_payload_not_skipped
            [OF o e, of ex_readers no_pictures empty_v50
                "write32 (SK_PICT_EOF_TAG four_cc_tags)" 4 OwnTable] o e
    by simp
qed

text \<open>
  C10. \<^verbatim>\<open>CreateFromStream\<close> called with a null top-level typeface playback parses with
  the new picture data's own table as the top-level playback, and no call of
  \<^verbatim>\<open>CreateFromStream\<close> goes through a null playback pointer.
\<close>

theorem null_top_level_playback_is_replaced:
  "CreateFromStream T R mk s info NullPtr
     = parseStream T R mk (new_SkPictureData info) s OwnTable
   \<and> CreateFromStream T R mk s info p \<noteq> Inl NullDeref"
  by (simp add: CreateFromStream_def parseStream_no_deref)

text \<open>Without the replacement the handler would go through the null pointer.\<close>

lemma null_top_level_playback_is_dereferenced:
  "fFactoryPlayback d = Some fp \<Longrightarrow> fTFPlayback d = []
     \<Longrightarrow> setup_buffer d storage NullPtr = Inl NullDeref"
  by (simp add: setup_buffer_def)

text \<open>
  The unread stream after \<open>i\<close> typefaces have been deserialized from \<open>s\<close>, and the entry
  the TYPEFACE section stores for the typeface read at \<open>s\<close>.
\<close>

fun tf_stream ::
  "('pn, 'pt, 'bl, 'vx, 'im, 'dr, 'tf, 'fc) readers \<Rightarrow> nat \<Rightarrow> byte list \<Rightarrow> byte list" where
  "tf_stream R 0 s = s"
| "tf_stream R (Suc i) s = tf_stream R i (drop (snd (Typeface_MakeDeserialize R s)) s)"

definition tf_or_default ::
  "('pn, 'pt, 'bl, 'vx, 'im, 'dr, 'tf, 'fc) readers \<Rightarrow> byte list \<Rightarrow> 'tf" where
  "tf_or_default R s =
     (case fst (Typeface_MakeDeserialize R s) of
        None \<Rightarrow> Typeface_MakeDefault R
      | Some t \<Rightarrow> t)"

lemma read_typefaces_table:
  assumes "length tab = i + n" and "read_typefaces R n i tab s = (tab', s')"
  shows "length tab' = i + n \<and> s' = tf_stream R n s
    \<and> (\<forall>j<i. tab' ! j = tab ! j)
    \<and> (\<forall>j<n. tab' ! (i + j) = Some (tf_or_default R (tf_stream R j s)))"
  using assms
proof (induction n arbitrary: i tab s)
  case 0
  then show ?case by simp
next
  case (Suc n)
  obtain tf k where mk: "Typeface_MakeDeserialize R s = (tf, k)"
    by (cases "Typeface_MakeDeserialize R s")
  define x where "x = (case tf of None \<Rightarrow> Typeface_MakeDefault R | Some t \<Rightarrow> t)"
  have x: "x = tf_or_default R s" by (simp add: x_def tf_or_default_def mk)
  have run: "read_typefaces R n (Suc i) (tab[i := Some x]) (drop k s) = (tab', s')"
    using Suc.prems(2) mk by (simp add: x_def)
  have len: "length (tab[i := Some x]) = Suc i + n" using Suc.prems(1) by simp
  note ih = Suc.IH [OF len run]
  have s': "s' = tf_stream R (Suc n) s" using ih mk by simp
  have low: "\<forall>j<i. tab' ! j = tab ! j" using ih by simp
  have at_i: "tab' ! i = Some x" using ih Suc.prems(1) by simp
  have high: "tab' ! (i + j) = Some (tf_or_default R (tf_stream R j s))" if "j < Suc n" for j
  proof (cases j)
    case 0
    then show ?thesis using at_i x by simp
  next
    case (Suc j')
    then have "j' < n" using that by simp
    then have "tab' ! (Suc i + j') = Some (tf_or_default R (tf_stream R j' (drop k s)))"
      using ih by blast
    then show ?thesis using Suc mk by simp
  qed
  show ?case using ih s' low high by simp
qed

text \<open>
  C6. The TYPEFACE section always succeeds. Its table has \<open>count\<close> entries, none of them
  null: entry \<open>i\<close> is the typeface deserialized at the \<open>i\<close>-th position of the stream,
  or the default typeface when that fails, and the loop goes on after a failure.
\<close>

theorem typeface_section_substitutes_default:
  assumes "tags_distinct T"
  shows "\<exists>tab. parseStreamTag T R mk d s (SK_PICT_TYPEFACE_TAG T) sz p
              = Inr (set_fTFPlayback tab d, tf_stream R (nat (sint sz)) s)
    \<and> length tab = nat (sint sz)
    \<and> None \<notin> set tab
    \<and> (\<forall>i<nat (sint sz). tab ! i =
          Some (case fst (Typeface_MakeDeserialize R (tf_stream R i s)) of
                  None \<Rightarrow> Typeface_MakeDefault R
                | Some t \<Rightarrow> t))"
proof -
  define n where "n = nat (sint sz)"
  obtain tab s' where run: "read_typefaces R n 0 (replicate n None) s = (tab, s')"
    by (cases "read_typefaces R n 0 (replicate n None) s")
  have t: "length tab = n \<and> s' = tf_stream R n s
    \<and> (\<forall>j<n. tab ! j = Some (tf_or_default R (tf_stream R j s)))"
    using read_typefaces_table [of "replicate n None" 0 n R s tab s'] run by simp
  have "None \<notin> set tab"
  proof
    assume "None \<in> set tab"
    then obtain j where "j < length tab" and "tab ! j = None"
      by (auto simp: in_set_conv_nth)
    then show False using t by auto
  qed
  moreover have "parseStreamTag T R mk d s (SK_PICT_TYPEFACE_TAG T) sz p
                   = Inr (set_fTFPlayback tab d, tf_stream R n s)"
    using tags_distinct_outer [OF assms] run t by (simp add: parseStreamTag_def n_def)
  ultimately show ?thesis using t by (auto simp: n_def tf_or_default_def)
qed

text \<open>Two entries are declared and one byte follows: the second typeface fails.\<close>

theorem typeface_section_substitutes_default_witness:
  "tags_distinct four_cc_tags
   \<and> parseStreamTag four_cc_tags ex_readers no_pictures empty_v50 [7]
        (SK_PICT_TYPEFACE_TAG four_cc_tags) 2 OwnTable
      = Inr (set_fTFPlayback [Some 7, Some 255] empty_v50, [])"
proof -
  have d: "tags_distinct four_cc_tags" by (rule four_cc_tags_distinct)
  obtain tab where
    run: "parseStreamTag four_cc_tags ex_readers no_pictures empty_v50 [7]
            (SK_PICT_TYPEFACE_TAG four_cc_tags) 2 OwnTable
          = Inr (set_fTFPlayback tab empty_v50, tf_stream ex_readers (nat (sint (2::u32))) [7])"
    and len: "length tab = nat (sint (2::u32))"
    and ent: "\<forall>i<nat (sint (2::u32)). tab ! i =
                Some (case fst (Typeface_MakeDeserialize ex_readers (tf_stream ex_readers i [7])) of
                        None \<Rightarrow> Typeface_MakeDefault ex_readers
                      | Some t \<Rightarrow> t)"
    using typeface_section_substitutes_default
            [OF d, of ex_readers no_pictures empty_v50 "[7]" 2 OwnTable]
    by blast
  have two: "nat (sint (2::u32)) = 2" by simp
  have e0: "tab ! 0 = Some 7" using ent two by (simp add: ex_readers_def)
  have "tab ! 1 = Some (case fst (Typeface_MakeDeserialize ex_readers
                                    (tf_stream ex_readers (Suc 0) [7])) of
                          None \<Rightarrow> Typeface_MakeDefault ex_readers
                        | Some t \<Rightarrow> t)"
    using ent two by simp
  then have e1: "tab ! 1 = Some 255" by (simp add: ex_readers_def)
  obtain a c where "tab = [a, c]"
    using len two by (auto simp: numeral_2_eq_2 length_Suc_conv)
  then have "tab = [Some 7, Some 255]" using e0 e1 by simp
  moreover have "tf_stream ex_readers (nat (sint (2::u32))) [7] = []"
    unfolding two by (simp add: numeral_2_eq_2 ex_readers_def)
  ultimately show ?thesis using run d by simp
qed

text \<open>
  Item \<open>k\<close> of the items a factory would read one after the other from \<open>b\<close> is null, for
  some \<open>k\<close> below \<open>n\<close>.
\<close>

definition item_fails ::
  "(('tf, 'fc) SkReadBuffer \<Rightarrow> 'a option \<times> ('tf, 'fc) SkReadBuffer) \<Rightarrow> nat
     \<Rightarrow> ('tf, 'fc) SkReadBuffer \<Rightarrow> bool" where
  "item_fails factory n b = (\<exists>k<n. fst (factory (((snd \<circ> factory) ^^ k) b)) = None)"

lemma validate_pass: "\<not> fError b \<Longrightarrow> c \<Longrightarrow> validate c b = (True, b)"
  by (simp add: validate_def)

lemma new_array_loop_fails:
  "item_fails factory n b
     \<Longrightarrow> \<exists>b'. new_array_loop factory n b array = (False, b', []) \<and> fError b'"
proof (induction n arbitrary: b array)
  case 0
  then show ?case by (simp add: item_fails_def)
next
  case (Suc n)
  obtain obj b1 where f: "factory b = (obj, b1)" by (cases "factory b")
  show ?case
  proof (cases obj)
    case None
    then show ?thesis using f by (simp add: validate_def)
  next
    case (Some x)
    show ?thesis
    proof (cases "fError b1")
      case True
      then show ?thesis using f Some by (simp add: validate_def)
    next
      case False
      obtain k where k: "k < Suc n" "fst (factory (((snd \<circ> factory) ^^ k) b)) = None"
        using Suc.prems by (auto simp: item_fails_def)
      then obtain k' where k': "k = Suc k'" using f Some by (cases k) auto
      have "((snd \<circ> factory) ^^ Suc k') b = ((snd \<circ> factory) ^^ k') b1"
        using f by (simp add: funpow_swap1)
      then have "item_fails factory n b1"
        using k k' unfolding item_fails_def by (intro exI [of _ k']) simp
      then obtain b' where "new_array_loop factory n b1 (array @ [x]) = (False, b', [])"
        and "fError b'"
        using Suc.IH by blast
      then show ?thesis using f Some False by (simp add: validate_pass)
    qed
  qed
qed

lemma new_array_from_buffer_fails:
  assumes "array = []" and "item_fails factory (unat inCount) b"
  shows "\<exists>b'. new_array_from_buffer b inCount array factory = (False, b', []) \<and> fError b'"
proof (cases "\<not> fError b \<and> SkTFitsIn_int inCount")
  case False
  then show ?thesis using assms(1) by (auto simp: new_array_from_buffer_def validate_def)
next
  case True
  have "inCount \<noteq> 0" using assms(2) by (auto simp: item_fails_def)
  then show ?thesis
    using True assms(1) new_array_loop_fails [OF assms(2), of "[]"]
    by (simp add: new_array_from_buffer_def validate_pass)
qed

lemma new_array_loop_all:
  "new_array_loop factory n b array = (True, b', array')
     \<Longrightarrow> \<not> fError b \<Longrightarrow> length array' = length array + n \<and> \<not> fError b'"
proof (induction n arbitrary: b array)
  case 0
  then show ?case by simp
next
  case (Suc n)
  then show ?case
    by (auto simp: validate_def split: prod.splits option.splits if_splits)
qed

lemma new_array_loop_nothing:
  "new_array_loop factory n b array = (False, b', array') \<Longrightarrow> array' = [] \<and> fError b'"
proof (induction n arbitrary: b array)
  case 0
  then show ?case by simp
next
  case (Suc n)
  then show ?case
    by (auto simp: validate_def split: prod.splits option.splits if_splits)
qed

lemma new_array_from_buffer_all_or_nothing:
  assumes "new_array_from_buffer buffer inCount [] factory = (ok, b', array')"
  shows "(ok \<and> length array' = unat inCount \<and> \<not> fError b')
    \<or> (\<not> ok \<and> array' = [] \<and> fError b')"
proof (cases "\<not> fError buffer \<and> SkTFitsIn_int inCount")
  case False
  then show ?thesis using assms by (auto simp: new_array_from_buffer_def validate_def)
next
  case True
  show ?thesis
  proof (cases "inCount = 0")
    case True
    then show ?thesis
      using assms \<open>\<not> fError buffer \<and> SkTFitsIn_int inCount\<close>
      by (auto simp: new_array_from_buffer_def validate_def)
  next
    case False
    then have run: "new_array_loop factory (unat inCount) buffer [] = (ok, b', array')"
      using assms True by (simp add: new_array_from_buffer_def validate_pass)
    show ?thesis
      using new_array_loop_all [of factory "unat inCount" buffer "[]" b' array']
            new_array_loop_nothing [of factory "unat inCount" buffer "[]" b' array']
            run True
      by (cases ok) auto
  qed
qed

lemma sel_set [simp]:
  "fOpData (set_fOpData v0 d) = v0"
  "fPaints (set_fPaints v1 d) = v1"
  "fPaths (set_fPaths v2 d) = v2"
  "fTextBlobs (set_fTextBlobs v3 d) = v3"
  "fVertices (set_fVertices v4 d) = v4"
  "fImages (set_fImages v5 d) = v5"
  "fDrawables (set_fDrawables v6 d) = v6"
  "fPictures (set_fPictures v7 d) = v7"
  "fFactoryPlayback (set_fFactoryPlayback v8 d) = v8"
  "fTFPlayback (set_fTFPlayback v9 d) = v9"
  by (cases d; simp)+

lemma tags_distinct_forward:
  assumes "tags_distinct T"
  shows "SK_PICT_READER_TAG T \<noteq> SK_PICT_FACTORY_TAG T"
    and "SK_PICT_READER_TAG T \<noteq> SK_PICT_TYPEFACE_TAG T"
    and "SK_PICT_READER_TAG T \<noteq> SK_PICT_PICTURE_TAG T"
    and "SK_PICT_READER_TAG T \<noteq> SK_PICT_DRAWABLE_TAG T"
    and "SK_PICT_READER_TAG T \<noteq> SK_PICT_BUFFER_SIZE_TAG T"
    and "SK_PICT_READER_TAG T \<noteq> SK_PICT_PAINT_BUFFER_TAG T"
    and "SK_PICT_READER_TAG T \<noteq> SK_PICT_PATH_BUFFER_TAG T"
    and "SK_PICT_READER_TAG T \<noteq> SK_PICT_TEXTBLOB_BUFFER_TAG T"
    and "SK_PICT_READER_TAG T \<noteq> SK_PICT_VERTICES_BUFFER_TAG T"
    and "SK_PICT_READER_TAG T \<noteq> SK_PICT_IMAGE_BUFFER_TAG T"
    and "SK_PICT_READER_TAG T \<noteq> SK_PICT_EOF_TAG T"
    and "SK_PICT_FACTORY_TAG T \<noteq> SK_PICT_TYPEFACE_TAG T"
    and "SK_PICT_FACTORY_TAG T \<noteq> SK_PICT_PICTURE_TAG T"
    and "SK_PICT_FACTORY_TAG T \<noteq> SK_PICT_DRAWABLE_TAG T"
    and "SK_PICT_FACTORY_TAG T \<noteq> SK_PICT_BUFFER_SIZE_TAG T"
    and "SK_PICT_FACTORY_TAG T \<noteq> SK_PICT_PAINT_BUFFER_TAG T"
    and "SK_PICT_FACTORY_TAG T \<noteq> SK_PICT_PATH_BUFFER_TAG T"
    and "SK_PICT_FACTORY_TAG T \<noteq> SK_PICT_TEXTBLOB_BUFFER_TAG T"
    and "SK_PICT_FACTORY_TAG T \<noteq> SK_PICT_VERTICES_BUFFER_TAG T"
    and "SK_PICT_FACTORY_TAG T \<noteq> SK_PICT_IMAGE_BUFFER_TAG T"
    and "SK_PICT_FACTORY_TAG T \<noteq> SK_PICT_EOF_TAG T"
    and "SK_PICT_TYPEFACE_TAG T \<noteq> SK_PICT_PICTURE_TAG T"
    and "SK_PICT_TYPEFACE_TAG T \<noteq> SK_PICT_DRAWABLE_TAG T"
    and "SK_PICT_TYPEFACE_TAG T \<noteq> SK_PICT_BUFFER_SIZE_TAG T"
    and "SK_PICT_TYPEFACE_TAG T \<noteq> SK_PICT_PAINT_BUFFER_TAG T"
    and "SK_PICT_TYPEFACE_TAG T \<noteq> SK_PICT_PATH_BUFFER_TAG T"
    and "SK_PICT_TYPEFACE_TAG T \<noteq> SK_PICT_TEXTBLOB_BUFFER_TAG T"
    and "SK_PICT_TYPEFACE_TAG T \<noteq> SK_PICT_VERTICES_BUFFER_TAG T"
    and "SK_PICT_TYPEFACE_TAG T \<noteq> SK_PICT_IMAGE_BUFFER_TAG T"
    and "SK_PICT_TYPEFACE_TAG T \<noteq> SK_PICT_EOF_TAG T"
    and "SK_PICT_PICTURE_TAG T \<noteq> SK_PICT_DRAWABLE_TAG T"
    and "SK_PICT_PICTURE_TAG T \<noteq> SK_PICT_BUFFER_SIZE_TAG T"
    and "SK_PICT_PICTURE_TAG T \<noteq> SK_PICT_PAINT_BUFFER_TAG T"
    and "SK_PICT_PICTURE_TAG T \<noteq> SK_PICT_PATH_BUFFER_TAG T"
    and "SK_PICT_PICTURE_TAG T \<noteq> SK_PICT_TEXTBLOB_BUFFER_TAG T"
    and "SK_PICT_PICTURE_TAG T \<noteq> SK_PICT_VERTICES_BUFFER_TAG T"
    and "SK_PICT_PICTURE_TAG T \<noteq> SK_PICT_IMAGE_BUFFER_TAG T"
    and "SK_PICT_PICTURE_TAG T \<noteq> SK_PICT_EOF_TAG T"
    and "SK_PICT_DRAWABLE_TAG T \<noteq> SK_PICT_BUFFER_SIZE_TAG T"
    and "SK_PICT_DRAWABLE_TAG T \<noteq> SK_PICT_PAINT_BUFFER_TAG T"
    and "SK_PICT_DRAWABLE_TAG T \<noteq> SK_PICT_PATH_BUFFER_TAG T"
    and "SK_PICT_DRAWABLE_TAG T \<noteq> SK_PICT_TEXTBLOB_BUFFER_TAG T"
    and "SK_PICT_DRAWABLE_TAG T \<noteq> SK_PICT_VERTICES_BUFFER_TAG T"
    and "SK_PICT_DRAWABLE_TAG T \<noteq> SK_PICT_IMAGE_BUFFER_TAG T"
    and "SK_PICT_DRAWABLE_TAG T \<noteq> SK_PICT_EOF_TAG T"
    and "SK_PICT_BUFFER_SIZE_TAG T \<noteq> SK_PICT_PAINT_BUFFER_TAG T"
    and "SK_PICT_BUFFER_SIZE_TAG T \<noteq> SK_PICT_PATH_BUFFER_TAG T"
    and "SK_PICT_BUFFER_SIZE_TAG T \<noteq> SK_PICT_TEXTBLOB_BUFFER_TAG T"
    and "SK_PICT_BUFFER_SIZE_TAG T \<noteq> SK_PICT_VERTICES_BUFFER_TAG T"
    and "SK_PICT_BUFFER_SIZE_TAG T \<noteq> SK_PICT_IMAGE_BUFFER_TAG T"
    and "SK_PICT_BUFFER_SIZE_TAG T \<noteq> SK_PICT_EOF_TAG T"
    and "SK_PICT_PAINT_BUFFER_TAG T \<noteq> SK_PICT_PATH_BUFFER_TAG T"
    and "SK_PICT_PAINT_BUFFER_TAG T \<noteq> SK_PICT_TEXTBLOB_BUFFER_TAG T"
    and "SK_PICT_PAINT_BUFFER_TAG T \<noteq> SK_PICT_VERTICES_BUFFER_TAG T"
    and "SK_PICT_PAINT_BUFFER_TAG T \<noteq> SK_PICT_IMAGE_BUFFER_TAG T"
    and "SK_PICT_PAINT_BUFFER_TAG T \<noteq> SK_PICT_EOF_TAG T"
    and "SK_PICT_PATH_BUFFER_TAG T \<noteq> SK_PICT_TEXTBLOB_BUFFER_TAG T"
    and "SK_PICT_PATH_BUFFER_TAG T \<noteq> SK_PICT_VERTICES_BUFFER_TAG T"
    and "SK_PICT_PATH_BUFFER_TAG T \<noteq> SK_PICT_IMAGE_BUFFER_TAG T"
    and "SK_PICT_PATH_BUFFER_TAG T \<noteq> SK_PICT_EOF_TAG T"
    and "SK_PICT_TEXTBLOB_BUFFER_TAG T \<noteq> SK_PICT_VERTICES_BUFFER_TAG T"
    and "SK_PICT_TEXTBLOB_BUFFER_TAG T \<noteq> SK_PICT_IMAGE_BUFFER_TAG T"
    and "SK_PICT_TEXTBLOB_BUFFER_TAG T \<noteq> SK_PICT_EOF_TAG T"
    and "SK_PICT_VERTICES_BUFFER_TAG T \<noteq> SK_PICT_IMAGE_BUFFER_TAG T"
    and "SK_PICT_VERTICES_BUFFER_TAG T \<noteq> SK_PICT_EOF_TAG T"
    and "SK_PICT_IMAGE_BUFFER_TAG T \<noteq> SK_PICT_EOF_TAG T"
  using assms by (simp_all add: tags_distinct_def tag_list_def)

lemmas tag_neq = tags_distinct_forward tags_distinct_forward [symmetric]

lemma inner_dispatch:
  assumes "tags_distinct T"
  shows "parseBufferTag T R d b (SK_PICT_TEXTBLOB_BUFFER_TAG T) sz =
           (case new_array_from_buffer b sz (fTextBlobs d)
                   (typed_read (TextBlob_MakeFromBuffer R)) of
              (ok, b', array) \<Rightarrow> (set_fTextBlobs array d, b'))"
    and "parseBufferTag T R d b (SK_PICT_VERTICES_BUFFER_TAG T) sz =
           (case new_array_from_buffer b sz (fVertices d) (create_vertices_from_buffer R) of
              (ok, b', array) \<Rightarrow> (set_fVertices array d, b'))"
    and "parseBufferTag T R d b (SK_PICT_IMAGE_BUFFER_TAG T) sz =
           (case new_array_from_buffer b sz (fImages d) (typed_read (readImage R)) of
              (ok, b', array) \<Rightarrow> (set_fImages array d, b'))"
    and "parseBufferTag T R d b (SK_PICT_DRAWABLE_TAG T) sz =
           (case new_array_from_buffer b sz (fDrawables d) (typed_read (readDrawable R)) of
              (ok, b', array) \<Rightarrow> (set_fDrawables array d, b'))"
  by (simp_all add: parseBufferTag_def tag_neq [OF assms])

text \<open>
  C5. In the TEXTBLOB_BUFFER, VERTICES_BUFFER, IMAGE_BUFFER and DRAWABLE sections, when
  one of the items fails to deserialize the array of the section is empty afterwards and
  the invalidity flag of the buffer is set. An array that was empty before the section
  holds nothing or all of the items after it.
\<close>

theorem inner_sections_all_or_nothing:
  assumes "tags_distinct T"
  shows "(fTextBlobs d = [] \<and> item_fails (typed_read (TextBlob_MakeFromBuffer R)) (unat sz) b
           \<longrightarrow> fTextBlobs (fst (parseBufferTag T R d b (SK_PICT_TEXTBLOB_BUFFER_TAG T) sz)) = []
             \<and> fError (snd (parseBufferTag T R d b (SK_PICT_TEXTBLOB_BUFFER_TAG T) sz)))
    \<and> (fVertices d = [] \<and> item_fails (create_vertices_from_buffer R) (unat sz) b
           \<longrightarrow> fVertices (fst (parseBufferTag T R d b (SK_PICT_VERTICES_BUFFER_TAG T) sz)) = []
             \<and> fError (snd (parseBufferTag T R d b (SK_PICT_VERTICES_BUFFER_TAG T) sz)))
    \<and> (fImages d = [] \<and> item_fails (typed_read (readImage R)) (unat sz) b
           \<longrightarrow> fImages (fst (parseBufferTag T R d b (SK_PICT_IMAGE_BUFFER_TAG T) sz)) = []
             \<and> fError (snd (parseBufferTag T R d b (SK_PICT_IMAGE_BUFFER_TAG T) sz)))
    \<and> (fDrawables d = [] \<and> item_fails (typed_read (readDrawable R)) (unat sz) b
           \<longrightarrow> fDrawables (fst (parseBufferTag T R d b (SK_PICT_DRAWABLE_TAG T) sz)) = []
             \<and> fError (snd (parseBufferTag T R d b (SK_PICT_DRAWABLE_TAG T) sz)))
    \<and> (new_array_from_buffer b sz [] factory = (ok, b', array')
           \<longrightarrow> (ok \<and> length array' = unat sz \<and> \<not> fError b')
             \<or> (\<not> ok \<and> array' = [] \<and> fError b'))"
proof -
  note disp = inner_dispatch [OF assms, of R d b sz]
  have blobs: "fTextBlobs (fst (parseBufferTag T R d b (SK_PICT_TEXTBLOB_BUFFER_TAG T) sz)) = []
     \<and> fError (snd (parseBufferTag T R d b (SK_PICT_TEXTBLOB_BUFFER_TAG T) sz))"
    if "fTextBlobs d = []" "item_fails (typed_read (TextBlob_MakeFromBuffer R)) (unat sz) b"
    using new_array_from_buffer_fails [OF that] that(1) by (auto simp: disp(1))
  have verts: "fVertices (fst (parseBufferTag T R d b (SK_PICT_VERTICES_BUFFER_TAG T) sz)) = []
     \<and> fError (snd (parseBufferTag T R d b (SK_PICT_VERTICES_BUFFER_TAG T) sz))"
    if "fVertices d = []" "item_fails (create_vertices_from_buffer R) (unat sz) b"
    using new_array_from_buffer_fails [OF that] that(1) by (auto simp: disp(2))
  have imgs: "fImages (fst (parseBufferTag T R d b (SK_PICT_IMAGE_BUFFER_TAG T) sz)) = []
     \<and> fError (snd (parseBufferTag T R d b (SK_PICT_IMAGE_BUFFER_TAG T) sz))"
    if "fImages d = []" "item_fails (typed_read (readImage R)) (unat sz) b"
    using new_array_from_buffer_fails [OF that] that(1) by (auto simp: disp(3))
  have draws: "fDrawables (fst (parseBufferTag T R d b (SK_PICT_DRAWABLE_TAG T) sz)) = []
     \<and> fError (snd (parseBufferTag T R d b (SK_PICT_DRAWABLE_TAG T) sz))"
    if "fDrawables d = []" "item_fails (typed_read (readDrawable R)) (unat sz) b"
    using new_array_from_buffer_fails [OF that] that(1) by (auto simp: disp(4))
  have gen: "(ok \<and> length array' = unat sz \<and> \<not> fError b') \<or> (\<not> ok \<and> array' = [] \<and> fError b')"
    if "new_array_from_buffer b sz [] factory = (ok, b', array')"
    using that by (rule new_array_from_buffer_all_or_nothing)
  show ?thesis
    apply (intro conjI impI)
    using blobs verts imgs draws gen by simp_all
qed

text \<open>Two items are declared and the buffer holds one byte.\<close>

theorem inner_sections_all_or_nothing_witness:
  "tags_distinct four_cc_tags
   \<and> fTextBlobs empty_v50 = [] \<and> fVertices empty_v50 = [] \<and> fImages empty_v50 = []
   \<and> fDrawables empty_v50 = []
   \<and> item_fails (typed_read (TextBlob_MakeFromBuffer ex_readers)) (unat (2::u32))
        (new_SkReadBuffer [5])
   \<and> item_fails (create_vertices_from_buffer ex_readers) (unat (2::u32)) (new_SkReadBuffer [5])
   \<and> item_fails (typed_read (readImage ex_readers)) (unat (2::u32)) (new_SkReadBuffer [5])
   \<and> item_fails (typed_read (readDrawable ex_readers)) (unat (2::u32)) (new_SkReadBuffer [5])
   \<and> fTextBlobs (fst (parseBufferTag four_cc_tags ex_readers empty_v50 (new_SkReadBuffer [5])
                         (SK_PICT_TEXTBLOB_BUFFER_TAG four_cc_tags) 2)) = []
   \<and> fError (snd (parseBufferTag four_cc_tags ex_readers empty_v50 (new_SkReadBuffer [5])
                     (SK_PICT_TEXTBLOB_BUFFER_TAG four_cc_tags) 2))
   \<and> fVertices (fst (parseBufferTag four_cc_tags ex_readers empty_v50 (new_SkReadBuffer [5])
                        (SK_PICT_VERTICES_BUFFER_TAG four_cc_tags) 2)) = []
   \<and> fError (snd (parseBufferTag four_cc_tags ex_readers empty_v50 (new_SkReadBuffer [5])
                     (SK_PICT_VERTICES_BUFFER_TAG four_cc_tags) 2))
   \<and> fImages (fst (parseBufferTag four_cc_tags ex_readers empty_v50 (new_SkReadBuffer [5])
                      (SK_PICT_IMAGE_BUFFER_TAG four_cc_tags) 2)) = []
   \<and> fError (snd (parseBufferTag four_cc_tags ex_readers empty_v50 (new_SkReadBuffer [5])
                     (SK_PICT_IMAGE_BUFFER_TAG four_cc_tags) 2))
   \<and> fDrawables (fst (parseBufferTag four_cc_tags ex_readers empty_v50 (new_SkReadBuffer [5])
                         (SK_PICT_DRAWABLE_TAG four_cc_tags) 2)) = []
   \<and> fError (snd (parseBufferTag four_cc_tags ex_readers empty_v50 (new_SkReadBuffer [5])
                     (SK_PICT_DRAWABLE_TAG four_cc_tags) 2))
   \<and> new_array_from_buffer (new_SkReadBuffer [5] :: (byte, byte) SkReadBuffer) 2 []
        (typed_read read_byte)
       = (False, (new_SkReadBuffer [])\<lparr>fError := True\<rparr>, [])"
proof -
  have d: "tags_distinct four_cc_tags" by (rule four_cc_tags_distinct)
  have e: "fTextBlobs empty_v50 = []" "fVertices empty_v50 = []" "fImages empty_v50 = []"
    "fDrawables empty_v50 = []"
    by (simp_all add: empty_v50_def new_SkPictureData_def)
  have two: "unat (2::u32) = Suc (Suc 0)" by simp
  have second: "item_fails (typed_read read_byte) (Suc (Suc 0))
                  (new_SkReadBuffer [5] :: (byte, byte) SkReadBuffer)"
    unfolding item_fails_def
    by (rule exI [of _ "Suc 0"]) (simp add: typed_read_def read_byte_def new_SkReadBuffer_def)
  have first: "item_fails (create_vertices_from_buffer ex_readers) (Suc (Suc 0))
                 (new_SkReadBuffer [5])"
    unfolding item_fails_def
    by (rule exI [of _ 0])
       (simp add: create_vertices_from_buffer_def readByteArrayAsData_def readUInt_def
                  validate_def new_SkReadBuffer_def)
  have f: "item_fails (typed_read (TextBlob_MakeFromBuffer ex_readers)) (unat (2::u32))
             (new_SkReadBuffer [5])"
    "item_fails (create_vertices_from_buffer ex_readers) (unat (2::u32)) (new_SkReadBuffer [5])"
    "item_fails (typed_read (readImage ex_readers)) (unat (2::u32)) (new_SkReadBuffer [5])"
    "item_fails (typed_read (readDrawable ex_readers)) (unat (2::u32)) (new_SkReadBuffer [5])"
    using second first unfolding two by (simp_all add: ex_readers_def)
  have run: "new_array_from_buffer (new_SkReadBuffer [5] :: (byte, byte) SkReadBuffer) 2 []
               (typed_read read_byte)
             = (False, (new_SkReadBuffer [])\<lparr>fError := True\<rparr>, [])"
  proof -
    have "new_array_loop (typed_read read_byte) (unat (2::u32))
            (new_SkReadBuffer [5] :: (byte, byte) SkReadBuffer) []
          = (False, (new_SkReadBuffer [])\<lparr>fError := True\<rparr>, [])"
      by (simp only: two)
         (simp add: validate_def typed_read_def read_byte_def new_SkReadBuffer_def)
    then show ?thesis
      by (simp add: new_array_from_buffer_def validate_def SkTFitsIn_int_def
                    new_SkReadBuffer_def)
  qed
  show ?thesis
    using inner_sections_all_or_nothing
            [OF d, of empty_v50 ex_readers 2 "new_SkReadBuffer [5]" "typed_read read_byte"
               False "(new_SkReadBuffer [])\<lparr>fError := True\<rparr>" "[]"]
          d e f run
    by simp
qed

section \<open>The encoder\<close>

text \<open>
  Modelled from the spec: \<^verbatim>\<open>SkBinaryWriteBuffer\<close>, \<^verbatim>\<open>SkRefCntSet\<close> and
  \<^verbatim>\<open>SkFactorySet\<close> (the classes are missing). "A sink supporting typed appends [...] It
  holds references to a factory recorder and a typeface recorder; recording happens
  transparently when a paint or flattenable is written." A recorder keeps its entries in
  the order of their first appearance and "deduplicates [...] by identity".
\<close>

record ('tf, 'fc) SkWriteBuffer =
  wb_bytes :: "byte list"
  fFactorySet :: "'fc list"
  fTFSet :: "'tf list"

definition recorder_add :: "'a \<Rightarrow> 'a list \<Rightarrow> 'a list" where
  "recorder_add x xs = (if x \<in> set xs then xs else xs @ [x])"

definition record_all :: "'a list \<Rightarrow> 'a list \<Rightarrow> 'a list" where
  "record_all recorded xs = fold recorder_add xs recorded"

text \<open>
  What the flattening of one black-box resource does to the write buffer: the factories
  and the typefaces it records, in this order, and the bytes it appends, which may
  depend on the contents of the two recorders (the resource is written with the indices
  of what it refers to).
\<close>

record ('tf, 'fc) flat =
  refs_fc :: "'fc list"
  refs_tf :: "'tf list"
  flat_bytes :: "'fc list \<Rightarrow> 'tf list \<Rightarrow> byte list"

definition write_flat :: "('tf, 'fc) flat \<Rightarrow> ('tf, 'fc) SkWriteBuffer \<Rightarrow> ('tf, 'fc) SkWriteBuffer"
  where
  "write_flat x wb =
     (let fs = record_all (fFactorySet wb) (refs_fc x);
          ts = record_all (fTFSet wb) (refs_tf x)
      in \<lparr>wb_bytes = wb_bytes wb @ flat_bytes x fs ts, fFactorySet = fs, fTFSet = ts\<rparr>)"

definition writeUInt :: "u32 \<Rightarrow> ('tf, 'fc) SkWriteBuffer \<Rightarrow> ('tf, 'fc) SkWriteBuffer" where
  "writeUInt w wb = wb\<lparr>wb_bytes := wb_bytes wb @ write32 w\<rparr>"

text \<open>\<^verbatim>\<open>write_tag_size(SkWriteBuffer&, tag, size)\<close>.\<close>

definition write_tag_size_buffer ::
  "u32 \<Rightarrow> nat \<Rightarrow> ('tf, 'fc) SkWriteBuffer \<Rightarrow> ('tf, 'fc) SkWriteBuffer" where
  "write_tag_size_buffer tag sz wb = writeUInt (of_nat sz) (writeUInt tag wb)"

text \<open>\<open>writeDataAsByteArray\<close>: "a 32-bit length followed by the bytes, padded to a 4-byte
  boundary".\<close>

definition writeDataAsByteArray ::
  "byte list \<Rightarrow> ('tf, 'fc) SkWriteBuffer \<Rightarrow> ('tf, 'fc) SkWriteBuffer" where
  "writeDataAsByteArray data wb =
     wb\<lparr>wb_bytes := wb_bytes wb @ write32 (of_nat (length data)) @ data
                       @ replicate (SkAlign4 (length data) - length data) 0\<rparr>"

text \<open>
  The collaborators of the encoder, none of which is part of the sources at hand: the
  flatteners of the black-box resources, which depend on the serialisation callbacks
  (\<^verbatim>\<open>SkSerialProcs\<close>, a type variable), the callbacks that a null \<^verbatim>\<open>procs\<close> pointer stands
  for, and the names of the global factory registry (a C string or null).
\<close>

record ('pn, 'pt, 'bl, 'vx, 'im, 'tf, 'fc, 'pr) writers =
  Typeface_serialize :: "'tf \<Rightarrow> byte list"
  FactoryToName :: "'fc \<Rightarrow> byte list option"
  default_procs :: "'pr"
  writePaint :: "'pr \<Rightarrow> 'pn \<Rightarrow> ('tf, 'fc) flat"
  writePath :: "'pr \<Rightarrow> 'pt \<Rightarrow> ('tf, 'fc) flat"
  TextBlob_flatten :: "'pr \<Rightarrow> 'bl \<Rightarrow> ('tf, 'fc) flat"
  Vertices_encode :: "'vx \<Rightarrow> byte list"
  writeImage :: "'pr \<Rightarrow> 'im \<Rightarrow> ('tf, 'fc) flat"

text \<open>The name \<^verbatim>\<open>WriteFactories\<close> writes for a factory: nothing for a null or empty
  name, and the bytes up to \<^verbatim>\<open>strlen\<close> otherwise.\<close>

definition factory_name ::
  "('pn, 'pt, 'bl, 'vx, 'im, 'tf, 'fc, 'pr) writers \<Rightarrow> 'fc \<Rightarrow> byte list" where
  "factory_name W f = (case FactoryToName W f of None \<Rightarrow> [] | Some name \<Rightarrow> c_str name)"

text \<open>\<^verbatim>\<open>compute_chunk_size\<close>.\<close>

definition compute_chunk_size ::
  "('pn, 'pt, 'bl, 'vx, 'im, 'tf, 'fc, 'pr) writers \<Rightarrow> 'fc list \<Rightarrow> nat" where
  "compute_chunk_size W array =
     fold (\<lambda>f sz. sz + SizeOfPackedUInt (length (factory_name W f)) + length (factory_name W f))
       array 4"

text \<open>\<^verbatim>\<open>SkPictureData::WriteFactories\<close>.\<close>

definition WriteFactories ::
  "pict_tags \<Rightarrow> ('pn, 'pt, 'bl, 'vx, 'im, 'tf, 'fc, 'pr) writers \<Rightarrow> 'fc list \<Rightarrow> byte list" where
  "WriteFactories T W rec =
     write_tag_size (SK_PICT_FACTORY_TAG T) (compute_chunk_size W rec)
     @ write32 (of_nat (length rec))
     @ concat (map (\<lambda>f. writePackedUInt (length (factory_name W f)) @ factory_name W f) rec)"

text \<open>\<^verbatim>\<open>SkPictureData::WriteTypefaces\<close>.\<close>

definition WriteTypefaces ::
  "pict_tags \<Rightarrow> ('pn, 'pt, 'bl, 'vx, 'im, 'tf, 'fc, 'pr) writers \<Rightarrow> 'tf list \<Rightarrow> byte list" where
  "WriteTypefaces T W rec =
     write_tag_size (SK_PICT_TYPEFACE_TAG T) (length rec)
     @ concat (map (Typeface_serialize W) rec)"

text \<open>\<^verbatim>\<open>SkPictureData::flattenToBuffer\<close>: a section for each array that is not empty.\<close>

definition flattenToBuffer ::
  "pict_tags \<Rightarrow> ('pn, 'pt, 'bl, 'vx, 'im, 'tf, 'fc, 'pr) writers \<Rightarrow> 'pr
     \<Rightarrow> ('pn, 'pt, 'bl, 'vx, 'im, 'dr, 'tf, 'fc) SkPictureData \<Rightarrow> ('tf, 'fc) SkWriteBuffer
     \<Rightarrow> ('tf, 'fc) SkWriteBuffer" where
  "flattenToBuffer T W procs d buffer =
     (let b1 = (if length (fPaints d) > 0
                then fold (\<lambda>p. write_flat (writePaint W procs p)) (fPaints d)
                       (write_tag_size_buffer (SK_PICT_PAINT_BUFFER_TAG T)
                          (length (fPaints d)) buffer)
                else buffer);
          b2 = (if length (fPaths d) > 0
                then fold (\<lambda>p. write_flat (writePath W procs p)) (fPaths d)
                       (writeUInt (of_nat (length (fPaths d)))
                          (write_tag_size_buffer (SK_PICT_PATH_BUFFER_TAG T)
                             (length (fPaths d)) b1))
                else b1);
          b3 = (if fTextBlobs d \<noteq> []
                then fold (\<lambda>blob. write_flat (TextBlob_flatten W procs blob)) (fTextBlobs d)
                       (write_tag_size_buffer (SK_PICT_TEXTBLOB_BUFFER_TAG T)
                          (length (fTextBlobs d)) b2)
                else b2);
          b4 = (if fVertices d \<noteq> []
                then fold (\<lambda>vert. writeDataAsByteArray (Vertices_encode W vert)) (fVertices d)
                       (write_tag_size_buffer (SK_PICT_VERTICES_BUFFER_TAG T)
                          (length (fVertices d)) b3)
                else b3);
          b5 = (if fImages d \<noteq> []
                then fold (\<lambda>img. write_flat (writeImage W procs img)) (fImages d)
                       (write_tag_size_buffer (SK_PICT_IMAGE_BUFFER_TAG T)
                          (length (fImages d)) b4)
                else b4)
      in b5)"

text \<open>
  \<^verbatim>\<open>SkPictureData::serialize\<close>: the bytes written to the stream and the typeface set as
  the call leaves it. \<open>topLevelTypeFaceSet\<close> is \<open>None\<close> for a null pointer. Calling
  \<open>size()\<close> on a null \<open>fOpData\<close> goes through a null pointer. Modelled from the spec:
  \<^verbatim>\<open>SkPicture::serialize\<close> of a sub-picture (the class is missing) is the
  \<^verbatim>\<open>serialize\<close> of the picture data it owns ("\<open>sub_picture.serialize(stream, procs,
  typeface_set)\<close>"), with the default callbacks for a null \<^verbatim>\<open>procs\<close>. The first pass over
  the sub-pictures writes to a stream that drops the bytes and keeps the typefaces.
\<close>

fun serialize ::
  "pict_tags \<Rightarrow> ('pn, 'pt, 'bl, 'vx, 'im, 'tf, 'fc, 'pr) writers \<Rightarrow> 'pr \<Rightarrow> 'tf list option
     \<Rightarrow> ('pn, 'pt, 'bl, 'vx, 'im, 'dr, 'tf, 'fc) SkPictureData
     \<Rightarrow> error + byte list \<times> 'tf list"
  and serialize_all ::
  "pict_tags \<Rightarrow> ('pn, 'pt, 'bl, 'vx, 'im, 'tf, 'fc, 'pr) writers \<Rightarrow> 'pr \<Rightarrow> 'tf list
     \<Rightarrow> ('pn, 'pt, 'bl, 'vx, 'im, 'dr, 'tf, 'fc) SkPictureData list
     \<Rightarrow> error + byte list \<times> 'tf list" where
  "serialize T W procs topLevelTypeFaceSet
     (SkPictureData opData paints paths blobs verts images draws pictures info fp tfp) =
     (case opData of
        None \<Rightarrow> Inl NullDeref
      | Some ops \<Rightarrow>
          (let typefaceSet = (case topLevelTypeFaceSet of None \<Rightarrow> [] | Some ts \<Rightarrow> ts);
               buffer = flattenToBuffer T W procs
                          (SkPictureData opData paints paths blobs verts images draws pictures
                             info fp tfp)
                          \<lparr>wb_bytes = [], fFactorySet = [], fTFSet = typefaceSet\<rparr>
           in case serialize_all T W (default_procs W) (fTFSet buffer) pictures of
                Inl e \<Rightarrow> Inl e
              | Inr (devnull, typefaceSet1) \<Rightarrow>
                  (case serialize_all T W procs typefaceSet1 pictures of
                     Inl e \<Rightarrow> Inl e
                   | Inr (subs, typefaceSet2) \<Rightarrow>
                       Inr (write_tag_size (SK_PICT_READER_TAG T) (length ops) @ ops
                            @ WriteFactories T W (fFactorySet buffer)
                            @ (if topLevelTypeFaceSet = None
                               then WriteTypefaces T W typefaceSet1 else [])
                            @ write_tag_size (SK_PICT_BUFFER_SIZE_TAG T)
                                (length (wb_bytes buffer))
                            @ wb_bytes buffer
                            @ (if pictures \<noteq> []
                               then write_tag_size (SK_PICT_PICTURE_TAG T) (length pictures)
                                    @ subs
                               else [])
                            @ write32 (SK_PICT_EOF_TAG T),
                            typefaceSet2))))"
| "serialize_all T W procs typefaceSet [] = Inr ([], typefaceSet)"
| "serialize_all T W procs typefaceSet (pic # pics) =
     (case serialize T W procs (Some typefaceSet) pic of
        Inl e \<Rightarrow> Inl e
      | Inr (bytes, typefaceSet1) \<Rightarrow>
          (case serialize_all T W procs typefaceSet1 pics of
             Inl e \<Rightarrow> Inl e
           | Inr (bytes', typefaceSet2) \<Rightarrow> Inr (bytes @ bytes', typefaceSet2)))"

section \<open>Sub-pictures in the stream\<close>

lemma read_pictures_cong:
  assumes "\<And>t q. length t \<le> length s \<Longrightarrow> mk t q = mk' t q"
  shows "read_pictures mk n p d s = read_pictures mk' n p d s"
  using assms
proof (induction n arbitrary: d s)
  case 0
  then show ?case by simp
next
  case (Suc n)
  have "mk s p = mk' s p" using Suc.prems by simp
  moreover have "read_pictures mk n p d' (drop k s) = read_pictures mk' n p d' (drop k s)"
    for d' k
    using Suc.prems by (intro Suc.IH) simp
  ultimately show ?case by (simp split: option.splits)
qed

lemma parseStreamTag_cong:
  assumes "\<And>t q. length t \<le> length s \<Longrightarrow> mk t q = mk' t q"
  shows "parseStreamTag T R mk d s tag sz p = parseStreamTag T R mk' d s tag sz p"
  using read_pictures_cong [of s mk mk' "unat sz" "pass_ptr p d" d] assms
  by (simp add: parseStreamTag_def)

lemma parseStream_mk_cong:
  assumes "\<And>t q. length t < length s \<Longrightarrow> mk t q = mk' t q"
  shows "parseStream T R mk d s p = parseStream T R mk' d s p"
  using assms
proof (induction T R mk d s p rule: parseStream.induct)
  case (1 T R mk d stream p)
  show ?case
  proof (cases "readU32 stream")
    case None
    then show ?thesis
      by (simp add: parseStream.simps [of T R _ d stream p])
  next
    case (Some a)
    obtain tag s1 where a: "a = (tag, s1)" by (cases a)
    have l1: "length stream = length s1 + 4" using Some a by (simp add: readU32_length)
    show ?thesis
    proof (cases "SK_PICT_EOF_TAG T = tag")
      case True
      then show ?thesis using Some a by (simp add: parseStream.simps [of T R _ d stream p])
    next
      case notEOF: False
      show ?thesis
      proof (cases "readU32 s1")
        case None
        then show ?thesis
          using Some a notEOF by (simp add: parseStream.simps [of T R _ d stream p])
      next
        case Some2: (Some c)
        obtain sz s2 where c: "c = (sz, s2)" by (cases c)
        have l2: "length s1 = length s2 + 4" using Some2 c by (simp add: readU32_length)
        have same: "parseStreamTag T R mk d s2 tag sz p = parseStreamTag T R mk' d s2 tag sz p"
          using "1.prems" l1 l2 by (intro parseStreamTag_cong) simp
        show ?thesis
        proof (cases "parseStreamTag T R mk d s2 tag sz p")
          case (Inl e)
          then show ?thesis
            using Some a notEOF Some2 c same
            by (simp add: parseStream.simps [of T R _ d stream p])
        next
          case (Inr r)
          obtain d' s3 where r: "r = (d', s3)" by (cases r)
          have l3: "length s3 \<le> length s2" using Inr r by (simp add: parseStreamTag_length)
          have "parseStream T R mk d' s3 p = parseStream T R mk' d' s3 p"
            using "1.IH" [OF Some a [symmetric] notEOF Some2 c [symmetric] Inr r [symmetric]]
                  "1.prems" l1 l2 l3 by simp
          then show ?thesis
            using Some a notEOF Some2 c Inr r same
            by (simp add: parseStream.simps [of T R _ d stream p])
        qed
      qed
    qed
  qed
qed

lemma CreateFromStream_cong [fundef_cong]:
  assumes "T = T'" and "R = R'" and "s = s'" and "info = info'" and "p = p'"
    and "\<And>t q. length t < length s' \<Longrightarrow> mk t q = mk' t q"
  shows "CreateFromStream T R mk s info p = CreateFromStream T' R' mk' s' info' p'"
  using assms parseStream_mk_cong [of s' mk mk'] by (simp add: CreateFromStream_def)

text \<open>
  Modelled from the spec: \<^verbatim>\<open>SkPicture::MakeFromStream\<close> for a sub-picture (the class is
  missing). "Read \<open>size\<close> child pictures by recursive invocation; pass the top-level
  typeface playback", and the archive has "\<open>PICTURE_TAG u32 count archive \<times> count\<close>": a
  sub-picture is an archive, decoded by \<^verbatim>\<open>CreateFromStream\<close> with the header descriptor
  of its parent. The answer is the sub-picture and the number of bytes read.
\<close>

function MakeFromStream ::
  "pict_tags \<Rightarrow> ('pn, 'pt, 'bl, 'vx, 'im, 'dr, 'tf, 'fc) readers \<Rightarrow> SkPictInfo \<Rightarrow> byte list
     \<Rightarrow> 'tf tf_ptr \<Rightarrow> (('pn, 'pt, 'bl, 'vx, 'im, 'dr, 'tf, 'fc) SkPictureData \<times> nat) option"
  where
  "MakeFromStream T R info stream topLevelTFPlayback =
     (case CreateFromStream T R (MakeFromStream T R info) stream info topLevelTFPlayback of
        Inl e \<Rightarrow> None
      | Inr (d, rest) \<Rightarrow> Some (d, length stream - length rest))"
  by pat_completeness auto

termination MakeFromStream
  by (relation "measure (\<lambda>(T, R, info, s, p). length s)") auto

declare MakeFromStream.simps [simp del]

text \<open>
  The flatteners that go with \<open>ex_readers\<close>: a paint and a path record the typeface they
  stand for and are written as its index in the typeface recorder.
\<close>

fun index_of :: "'a \<Rightarrow> 'a list \<Rightarrow> nat" where
  "index_of x [] = 0"
| "index_of x (y # ys) = (if x = y then 0 else Suc (index_of x ys))"

definition write_tf_index :: "byte \<Rightarrow> (byte, byte) flat" where
  "write_tf_index t =
     \<lparr>refs_fc = [], refs_tf = [t], flat_bytes = (\<lambda>fs ts. write32 (of_nat (index_of t ts)))\<rparr>"

definition write_byte :: "byte \<Rightarrow> (byte, byte) flat" where
  "write_byte x = \<lparr>refs_fc = [], refs_tf = [], flat_bytes = (\<lambda>fs ts. [x])\<rparr>"

definition ex_writers :: "(byte, byte, byte, byte, byte, byte, byte, unit) writers" where
  "ex_writers =
     \<lparr>Typeface_serialize = (\<lambda>t. [t]),
      FactoryToName = (\<lambda>f. Some [f]),
      default_procs = (),
      writePaint = (\<lambda>procs. write_tf_index),
      writePath = (\<lambda>procs. write_tf_index),
      TextBlob_flatten = (\<lambda>procs. write_byte),
      Vertices_encode = (\<lambda>v. [v]),
      writeImage = (\<lambda>procs. write_byte)\<rparr>"

text \<open>The picture with an empty opcode blob, no resources and no sub-pictures.\<close>

definition empty_picture ::
  "SkPictInfo \<Rightarrow> ('pn, 'pt, 'bl, 'vx, 'im, 'dr, 'tf, 'fc) SkPictureData" where
  "empty_picture info = SkPictureData (Some []) [] [] [] [] [] [] [] info None []"

lemma flattenToBuffer_empty:
  "flattenToBuffer T W procs (empty_picture info) buffer = buffer"
  by (simp add: flattenToBuffer_def empty_picture_def)

lemma serialize_empty_picture:
  "serialize T W procs topSet (empty_picture info) =
     Inr (write_tag_size (SK_PICT_READER_TAG T) 0
          @ write_tag_size (SK_PICT_FACTORY_TAG T) 4 @ write32 0
          @ (if topSet = None then write_tag_size (SK_PICT_TYPEFACE_TAG T) 0 else [])
          @ write_tag_size (SK_PICT_BUFFER_SIZE_TAG T) 0
          @ write32 (SK_PICT_EOF_TAG T),
          case topSet of None \<Rightarrow> [] | Some ts \<Rightarrow> ts)"
  by (cases topSet)
     (simp_all add: empty_picture_def Let_def WriteFactories_def compute_chunk_size_def
                    WriteTypefaces_def flattenToBuffer_empty [unfolded empty_picture_def])

text \<open>
  Without a top-level typeface set the typeface set of the call is its local one,
  and \<^verbatim>\<open>serialize\<close> writes its TYPEFACE section, here with count 0, between the FACTORY
  section and the BUFFER_SIZE section: ten words, not the eight of the claim.
\<close>

theorem empty_picture_bytes_counterexample:
  "serialize four_cc_tags ex_writers () None
     (empty_picture v50 :: (byte, byte, byte, byte, byte, byte, byte, byte) SkPictureData)
     = Inr (write32 (SK_PICT_READER_TAG four_cc_tags) @ write32 0
            @ write32 (SK_PICT_FACTORY_TAG four_cc_tags) @ write32 4 @ write32 0
            @ write32 (SK_PICT_TYPEFACE_TAG four_cc_tags) @ write32 0
            @ write32 (SK_PICT_BUFFER_SIZE_TAG four_cc_tags) @ write32 0
            @ write32 (SK_PICT_EOF_TAG four_cc_tags), [])
   \<and> write32 (SK_PICT_READER_TAG four_cc_tags) @ write32 0
       @ write32 (SK_PICT_FACTORY_TAG four_cc_tags) @ write32 4 @ write32 0
       @ write32 (SK_PICT_TYPEFACE_TAG four_cc_tags) @ write32 0
       @ write32 (SK_PICT_BUFFER_SIZE_TAG four_cc_tags) @ write32 0
       @ write32 (SK_PICT_EOF_TAG four_cc_tags)
     \<noteq> write32 (SK_PICT_READER_TAG four_cc_tags) @ write32 0
       @ write32 (SK_PICT_FACTORY_TAG four_cc_tags) @ write32 4 @ write32 0
       @ write32 (SK_PICT_BUFFER_SIZE_TAG four_cc_tags) @ write32 0
       @ write32 (SK_PICT_EOF_TAG four_cc_tags)"
proof -
  have "length (write32 (SK_PICT_READER_TAG four_cc_tags) @ write32 0
       @ write32 (SK_PICT_FACTORY_TAG four_cc_tags) @ write32 4 @ write32 0
       @ write32 (SK_PICT_TYPEFACE_TAG four_cc_tags) @ write32 0
       @ write32 (SK_PICT_BUFFER_SIZE_TAG four_cc_tags) @ write32 0
       @ write32 (SK_PICT_EOF_TAG four_cc_tags))
     \<noteq> length (write32 (SK_PICT_READER_TAG four_cc_tags) @ write32 0
       @ write32 (SK_PICT_FACTORY_TAG four_cc_tags) @ write32 4 @ write32 0
       @ write32 (SK_PICT_BUFFER_SIZE_TAG four_cc_tags) @ write32 0
       @ write32 (SK_PICT_EOF_TAG four_cc_tags))"
    by simp
  then have "write32 (SK_PICT_READER_TAG four_cc_tags) @ write32 0
       @ write32 (SK_PICT_FACTORY_TAG four_cc_tags) @ write32 4 @ write32 0
       @ write32 (SK_PICT_TYPEFACE_TAG four_cc_tags) @ write32 0
       @ write32 (SK_PICT_BUFFER_SIZE_TAG four_cc_tags) @ write32 0
       @ write32 (SK_PICT_EOF_TAG four_cc_tags)
     \<noteq> write32 (SK_PICT_READER_TAG four_cc_tags) @ write32 0
       @ write32 (SK_PICT_FACTORY_TAG four_cc_tags) @ write32 4 @ write32 0
       @ write32 (SK_PICT_BUFFER_SIZE_TAG four_cc_tags) @ write32 0
       @ write32 (SK_PICT_EOF_TAG four_cc_tags)"
    by metis
  then show ?thesis
    by (simp add: serialize_empty_picture write_tag_size_def)
qed

text \<open>
  C4. The archive of the empty picture has the five sections READER 0, FACTORY 4 0,
  TYPEFACE 0, BUFFER_SIZE 0 and EOF when no top-level typeface set is supplied, and the
  four sections of the claim when one is supplied. Decoding the former gives a picture
  data with a zero-length opcode blob and empty arrays.
\<close>

theorem empty_picture_archive:
  fixes W :: "('pn, 'pt, 'bl, 'vx, 'im, 'tf, 'fc, 'pr) writers"
    and R :: "('pn, 'pt, 'bl, 'vx, 'im, 'dr, 'tf, 'fc) readers"
  assumes "tags_distinct T"
  shows "serialize T W procs None
           (empty_picture info :: ('pn, 'pt, 'bl, 'vx, 'im, 'dr, 'tf, 'fc) SkPictureData) =
           Inr (write32 (SK_PICT_READER_TAG T) @ write32 0
                @ write32 (SK_PICT_FACTORY_TAG T) @ write32 4 @ write32 0
                @ write32 (SK_PICT_TYPEFACE_TAG T) @ write32 0
                @ write32 (SK_PICT_BUFFER_SIZE_TAG T) @ write32 0
                @ write32 (SK_PICT_EOF_TAG T), [])
    \<and> serialize T W procs (Some ts)
           (empty_picture info :: ('pn, 'pt, 'bl, 'vx, 'im, 'dr, 'tf, 'fc) SkPictureData) =
           Inr (write32 (SK_PICT_READER_TAG T) @ write32 0
                @ write32 (SK_PICT_FACTORY_TAG T) @ write32 4 @ write32 0
                @ write32 (SK_PICT_BUFFER_SIZE_TAG T) @ write32 0
                @ write32 (SK_PICT_EOF_TAG T), ts)
    \<and> CreateFromStream T R mk
          (write32 (SK_PICT_READER_TAG T) @ write32 0
           @ write32 (SK_PICT_FACTORY_TAG T) @ write32 4 @ write32 0
           @ write32 (SK_PICT_TYPEFACE_TAG T) @ write32 0
           @ write32 (SK_PICT_BUFFER_SIZE_TAG T) @ write32 0
           @ write32 (SK_PICT_EOF_TAG T)) info NullPtr
        = Inr (SkPictureData (Some []) [] [] [] [] [] [] [] info (Some []) [], [])"
proof -
  note ne = tag_neq [OF assms]
  have reader: "parseStreamTag T R mk d s (SK_PICT_READER_TAG T) 0 p
                  = Inr (set_fOpData (Some []) d, s)" for d s p
    by (simp add: parseStreamTag_def)
  have factory: "parseStreamTag T R mk d (write32 0 @ s) (SK_PICT_FACTORY_TAG T) 4 p
                   = Inr (set_fFactoryPlayback (Some []) d, s)" for d s p
    using ne by (simp add: parseStreamTag_def)
  have typeface: "parseStreamTag T R mk d s (SK_PICT_TYPEFACE_TAG T) 0 p
                    = Inr (set_fTFPlayback [] d, s)" for d s p
    using ne by (simp add: parseStreamTag_def)
  have buffer: "parseStreamTag T R mk d s (SK_PICT_BUFFER_SIZE_TAG T) 0 OwnTable = Inr (d, s)"
    if "fFactoryPlayback d = Some []" "fTFPlayback d = []" for d s
    using ne that
    by (simp add: parseStreamTag_def setup_buffer_def new_SkReadBuffer_def
                  parseBufferLoop_eof isValid_def)
  have step: "parseStream T R mk d (write32 tag @ write32 sz @ s) p = parseStream T R mk d' s' p"
    if "tag \<noteq> SK_PICT_EOF_TAG T" "parseStreamTag T R mk d s tag sz p = Inr (d', s')"
    for d tag sz s p d' s'
    using that by (simp add: parseStream.simps [of T R mk d "write32 tag @ write32 sz @ s" p])
  have stop: "parseStream T R mk d (write32 (SK_PICT_EOF_TAG T)) p = Inr (d, [])" for d p
    using readU32_write32 [of "SK_PICT_EOF_TAG T" "[]"]
    by (simp add: parseStream.simps [of T R mk d "write32 (SK_PICT_EOF_TAG T)" p])
  have "CreateFromStream T R mk
          (write32 (SK_PICT_READER_TAG T) @ write32 0
           @ write32 (SK_PICT_FACTORY_TAG T) @ write32 4 @ write32 0
           @ write32 (SK_PICT_TYPEFACE_TAG T) @ write32 0
           @ write32 (SK_PICT_BUFFER_SIZE_TAG T) @ write32 0
           @ write32 (SK_PICT_EOF_TAG T)) info NullPtr
        = Inr (SkPictureData (Some []) [] [] [] [] [] [] [] info (Some []) [], [])"
    unfolding CreateFromStream_def
    by (simp add: step [OF _ reader] step [OF _ factory] step [OF _ typeface]
                  step [OF _ buffer] stop ne new_SkPictureData_def)
  then show ?thesis
    by (simp add: serialize_empty_picture write_tag_size_def)
qed

theorem empty_picture_archive_witness:
  "tags_distinct four_cc_tags
   \<and> serialize four_cc_tags ex_writers () None
        (empty_picture v50 :: (byte, byte, byte, byte, byte, byte, byte, byte) SkPictureData)
       = Inr (write32 (SK_PICT_READER_TAG four_cc_tags) @ write32 0
              @ write32 (SK_PICT_FACTORY_TAG four_cc_tags) @ write32 4 @ write32 0
              @ write32 (SK_PICT_TYPEFACE_TAG four_cc_tags) @ write32 0
              @ write32 (SK_PICT_BUFFER_SIZE_TAG four_cc_tags) @ write32 0
              @ write32 (SK_PICT_EOF_TAG four_cc_tags), [])
   \<and> CreateFromStream four_cc_tags ex_readers no_pictures
        (write32 (SK_PICT_READER_TAG four_cc_tags) @ write32 0
         @ write32 (SK_PICT_FACTORY_TAG four_cc_tags) @ write32 4 @ write32 0
         @ write32 (SK_PICT_TYPEFACE_TAG four_cc_tags) @ write32 0
         @ write32 (SK_PICT_BUFFER_SIZE_TAG four_cc_tags) @ write32 0
         @ write32 (SK_PICT_EOF_TAG four_cc_tags)) v50 NullPtr
       = Inr (SkPictureData (Some []) [] [] [] [] [] [] [] v50 (Some []) [], [])"
  using empty_picture_archive
          [OF four_cc_tags_distinct, of ex_writers "()" v50 "[]" ex_readers no_pictures]
        four_cc_tags_distinct
  by simp

section \<open>Reading back what the encoder wrote\<close>

subsection \<open>Words and lengths\<close>

lemma unat_of_nat32: "n < 2 ^ 32 \<Longrightarrow> unat (of_nat n :: u32) = n"
  by (simp add: unat_of_nat)

lemma sint_of_nat32: "n < 2 ^ 31 \<Longrightarrow> sint (of_nat n :: u32) = int n"
proof -
  assume n: "n < 2 ^ 31"
  have "signed_take_bit 31 (int n) = int n"
    using n by (intro signed_take_bit_int_eq_self) auto
  then show ?thesis by (simp add: signed_of_nat)
qed

lemma fits_int_of_nat: "n < 2 ^ 31 \<Longrightarrow> SkTFitsIn_int (of_nat n)"
  by (simp add: SkTFitsIn_int_def unat_of_nat32)

lemma of_nat32_eq_0:
  assumes "n < 2 ^ 32"
  shows "(of_nat n :: u32) = 0 \<longleftrightarrow> n = 0"
proof
  assume "(of_nat n :: u32) = 0"
  then have "unat (of_nat n :: u32) = 0" by simp
  then show "n = 0" using unat_of_nat32 [OF assms] by simp
next
  assume "n = 0"
  then show "(of_nat n :: u32) = 0" by simp
qed

lemma readPackedUInt_writePackedUInt:
  "n < 2 ^ 32 \<Longrightarrow> readPackedUInt (writePackedUInt n @ s) = Some (n, s)"
proof (cases "n < 255")
  case True
  assume "n < 2 ^ 32"
  have "unat (of_nat n :: byte) = n" using True by (simp add: unat_of_nat)
  moreover have "(of_nat n :: byte) \<noteq> 255"
  proof
    assume "(of_nat n :: byte) = 255"
    then have "unat (of_nat n :: byte) = unat (255 :: byte)" by simp
    then show False using calculation True by simp
  qed
  ultimately show ?thesis using True by (simp add: writePackedUInt_def)
next
  case False
  assume "n < 2 ^ 32"
  then show ?thesis using False by (simp add: writePackedUInt_def unat_of_nat32)
qed

lemma readUInt_write32:
  "\<not> fError rb \<Longrightarrow> readUInt (rb\<lparr>rb_data := write32 w @ rest\<rparr>) = (w, rb\<lparr>rb_data := rest\<rparr>)"
  by (simp add: readUInt_def)

lemma c_str_idem: "c_str (c_str bs) = c_str bs"
  by (simp add: c_str_def takeWhile_idem)

subsection \<open>Recorders\<close>

lemma prefix_recorder_add: "prefix xs (recorder_add x xs)"
  by (simp add: recorder_add_def)

lemma prefix_record_all: "prefix xs (record_all xs ys)"
  unfolding record_all_def
proof (induction ys arbitrary: xs)
  case Nil
  then show ?case by simp
next
  case (Cons y ys)
  have "prefix xs (recorder_add y xs)" by (rule prefix_recorder_add)
  also have "prefix (recorder_add y xs) (fold recorder_add ys (recorder_add y xs))"
    by (rule Cons.IH)
  finally show ?case by simp
qed

lemma set_record_all: "set (record_all xs ys) = set xs \<union> set ys"
  unfolding record_all_def
  by (induction ys arbitrary: xs) (auto simp: recorder_add_def)

lemma record_all_known: "set ys \<subseteq> set xs \<Longrightarrow> record_all xs ys = xs"
  unfolding record_all_def
  by (induction ys arbitrary: xs) (auto simp: recorder_add_def)

lemma record_all_append: "record_all xs (ys @ zs) = record_all (record_all xs ys) zs"
  by (simp add: record_all_def)

lemma record_all_Nil [simp]: "record_all xs [] = xs"
  by (simp add: record_all_def)

subsection \<open>How the write buffer grows\<close>

text \<open>The write buffer \<open>wb'\<close> is a later state of \<open>wb\<close>: bytes were appended, entries were
  recorded.\<close>

definition grows :: "('tf, 'fc) SkWriteBuffer \<Rightarrow> ('tf, 'fc) SkWriteBuffer \<Rightarrow> bool" where
  "grows wb wb' \<longleftrightarrow>
     prefix (wb_bytes wb) (wb_bytes wb') \<and> prefix (fFactorySet wb) (fFactorySet wb')
     \<and> prefix (fTFSet wb) (fTFSet wb')"

text \<open>The bytes appended between the two states.\<close>

definition appended :: "('tf, 'fc) SkWriteBuffer \<Rightarrow> ('tf, 'fc) SkWriteBuffer \<Rightarrow> byte list" where
  "appended wb wb' = drop (length (wb_bytes wb)) (wb_bytes wb')"

lemma grows_refl [simp]: "grows wb wb"
  by (simp add: grows_def)

lemma grows_trans: "grows a b \<Longrightarrow> grows b c \<Longrightarrow> grows a c"
  unfolding grows_def
  by (elim conjE, intro conjI) (erule (1) prefix_order.trans)+

lemma appended_refl [simp]: "appended wb wb = []"
  by (simp add: appended_def)

lemma grows_bytes: "grows wb wb' \<Longrightarrow> wb_bytes wb' = wb_bytes wb @ appended wb wb'"
  by (auto simp: grows_def appended_def prefix_def)

lemma appended_trans:
  assumes "grows a b" and "grows b c"
  shows "appended a c = appended a b @ appended b c"
proof -
  have "wb_bytes c = wb_bytes a @ appended a b @ appended b c"
    using grows_bytes [OF assms(1)] grows_bytes [OF assms(2)] by simp
  then show ?thesis by (simp add: appended_def [of a c])
qed

lemma grows_write_flat: "grows wb (write_flat x wb)"
  by (simp add: grows_def write_flat_def Let_def prefix_record_all)

lemma appended_write_flat:
  "appended wb (write_flat x wb)
     = flat_bytes x (fFactorySet (write_flat x wb)) (fTFSet (write_flat x wb))"
  by (simp add: appended_def write_flat_def Let_def)

lemma grows_writeUInt: "grows wb (writeUInt w wb)"
  by (simp add: grows_def writeUInt_def)

lemma appended_writeUInt: "appended wb (writeUInt w wb) = write32 w"
  by (simp add: appended_def writeUInt_def)

lemma sets_writeUInt [simp]:
  "fFactorySet (writeUInt w wb) = fFactorySet wb" "fTFSet (writeUInt w wb) = fTFSet wb"
  by (simp_all add: writeUInt_def)

lemma grows_write_tag_size_buffer: "grows wb (write_tag_size_buffer tag n wb)"
  unfolding write_tag_size_buffer_def
  by (rule grows_trans [OF grows_writeUInt grows_writeUInt])

lemma appended_write_tag_size_buffer:
  "appended wb (write_tag_size_buffer tag n wb) = write32 tag @ write32 (of_nat n)"
  by (simp add: appended_def write_tag_size_buffer_def writeUInt_def)

lemma sets_write_tag_size_buffer [simp]:
  "fFactorySet (write_tag_size_buffer tag n wb) = fFactorySet wb"
  "fTFSet (write_tag_size_buffer tag n wb) = fTFSet wb"
  by (simp_all add: write_tag_size_buffer_def)

lemma grows_writeDataAsByteArray: "grows wb (writeDataAsByteArray data wb)"
  by (simp add: grows_def writeDataAsByteArray_def)

lemma appended_writeDataAsByteArray:
  "appended wb (writeDataAsByteArray data wb)
     = write32 (of_nat (length data)) @ data
       @ replicate (SkAlign4 (length data) - length data) 0"
  by (simp add: appended_def writeDataAsByteArray_def)

lemma sets_writeDataAsByteArray [simp]:
  "fFactorySet (writeDataAsByteArray data wb) = fFactorySet wb"
  "fTFSet (writeDataAsByteArray data wb) = fTFSet wb"
  by (simp_all add: writeDataAsByteArray_def)

lemma grows_fold:
  assumes "\<And>x wb. grows wb (w x wb)"
  shows "grows wb (fold w xs wb)"
proof (induction xs arbitrary: wb)
  case Nil
  then show ?case by simp
next
  case (Cons x xs)
  show ?case using grows_trans [OF assms [of wb x] Cons.IH [of "w x wb"]] by simp
qed

subsection \<open>Recorders and playbacks\<close>

text \<open>The playback entry the FACTORY section builds for a recorded factory.\<close>

definition resolve ::
  "('pn, 'pt, 'bl, 'vx, 'im, 'tf, 'fc, 'pr) writers
     \<Rightarrow> ('pn, 'pt, 'bl, 'vx, 'im, 'dr, 'tf, 'fc) readers \<Rightarrow> 'fc \<Rightarrow> 'fc option" where
  "resolve W R f = NameToFactory R (factory_name W f)"

text \<open>
  The playbacks of a read buffer go with the recorders of a write buffer: the factory
  playback starts with the resolved entries of the factory recorder, and the typeface
  playback with the entries of the typeface recorder.
\<close>

definition compat ::
  "('pn, 'pt, 'bl, 'vx, 'im, 'tf, 'fc, 'pr) writers
     \<Rightarrow> ('pn, 'pt, 'bl, 'vx, 'im, 'dr, 'tf, 'fc) readers
     \<Rightarrow> 'fc list \<Rightarrow> 'tf list \<Rightarrow> ('tf, 'fc) SkReadBuffer \<Rightarrow> bool" where
  "compat W R fs ts rb \<longleftrightarrow>
     prefix (map (resolve W R) fs) (fFactoryArray rb) \<and> prefix (map Some ts) (fTFArray rb)"

lemma compat_data [simp]: "compat W R fs ts (rb\<lparr>rb_data := s\<rparr>) = compat W R fs ts rb"
  by (simp add: compat_def)

lemma compat_earlier:
  assumes "grows wb wb'" and "compat W R (fFactorySet wb') (fTFSet wb') rb"
  shows "compat W R (fFactorySet wb) (fTFSet wb) rb"
proof -
  have "prefix (map (resolve W R) (fFactorySet wb)) (map (resolve W R) (fFactorySet wb'))"
    and "prefix (map Some (fTFSet wb)) (map Some (fTFSet wb'))"
    using assms(1) by (simp_all add: grows_def map_mono_prefix)
  then show ?thesis
    using assms(2) unfolding compat_def
    by (elim conjE, intro conjI) (erule (1) prefix_order.trans)+
qed

subsection \<open>Round trips of the black-box resources\<close>

text \<open>What the decoders may rely on in a read buffer of a stream of version \<open>ver\<close>: it is
  valid, and its playbacks have as many entries as a 32-bit count can announce.\<close>

definition buffer_ctx :: "u32 \<Rightarrow> ('tf, 'fc) SkReadBuffer \<Rightarrow> bool" where
  "buffer_ctx ver rb \<longleftrightarrow>
     \<not> fError rb \<and> rb_version rb = ver \<and> length (fTFArray rb) < 2 ^ 31
     \<and> length (fFactoryArray rb) < 2 ^ 32"

lemma buffer_ctx_data [simp]: "buffer_ctx ver (rb\<lparr>rb_data := s\<rparr>) = buffer_ctx ver rb"
  by (simp add: buffer_ctx_def)

text \<open>
  The flattenable's own round trip. \<open>x\<close> is what flattening the resource does to the write
  buffer. Whatever the recorders held before, when the bytes it appended are at the
  cursor of a read buffer whose playbacks go with the recorders as they are after the
  write, the decoder \<open>rd\<close> answers \<open>result n\<close>, where \<open>n\<close> is the number of these bytes.
\<close>

definition round_trips ::
  "('pn, 'pt, 'bl, 'vx, 'im, 'tf, 'fc, 'pr) writers
     \<Rightarrow> ('pn, 'pt, 'bl, 'vx, 'im, 'dr, 'tf, 'fc) readers \<Rightarrow> u32 \<Rightarrow> ('tf, 'fc) flat
     \<Rightarrow> (('tf, 'fc) SkReadBuffer \<Rightarrow> 'r) \<Rightarrow> (nat \<Rightarrow> 'r) \<Rightarrow> bool" where
  "round_trips W R ver x rd result \<longleftrightarrow>
     (\<forall>rb fs ts rest.
        buffer_ctx ver rb
        \<and> compat W R (record_all fs (refs_fc x)) (record_all ts (refs_tf x)) rb
        \<and> rb_data rb
            = flat_bytes x (record_all fs (refs_fc x)) (record_all ts (refs_tf x)) @ rest
        \<longrightarrow> rd rb
            = result (length (flat_bytes x (record_all fs (refs_fc x))
                                (record_all ts (refs_tf x)))))"

lemma round_trips_write_flat:
  assumes "round_trips W R ver x rd result" and "buffer_ctx ver rb"
    and "compat W R (fFactorySet (write_flat x wb)) (fTFSet (write_flat x wb)) rb"
    and "rb_data rb = appended wb (write_flat x wb) @ rest"
  shows "rd rb = result (length (appended wb (write_flat x wb)))"
  using assms unfolding round_trips_def appended_write_flat
  by (simp add: write_flat_def Let_def)

lemma typed_read_round_trip:
  assumes "round_trips W R ver x rd (\<lambda>n. (Some v, n))" and "buffer_ctx ver rb"
    and "compat W R (fFactorySet (write_flat x wb)) (fTFSet (write_flat x wb)) rb"
    and "rb_data rb = appended wb (write_flat x wb) @ rest"
  shows "typed_read rd rb = (Some v, rb\<lparr>rb_data := rest\<rparr>)"
  using round_trips_write_flat [OF assms] assms(2,4)
  by (simp add: typed_read_def buffer_ctx_def)

lemma slot_read_round_trip:
  assumes "round_trips W R ver x rd (\<lambda>n. (v, True, n))" and "buffer_ctx ver rb"
    and "compat W R (fFactorySet (write_flat x wb)) (fTFSet (write_flat x wb)) rb"
    and "rb_data rb = appended wb (write_flat x wb) @ rest"
  shows "slot_read rd rb = (v, True, rb\<lparr>rb_data := rest\<rparr>)"
  using round_trips_write_flat [OF assms] assms(2,4)
  by (simp add: slot_read_def buffer_ctx_def)

subsection \<open>Reading back a list of items\<close>

lemma new_array_loop_reads_back:
  assumes step: "\<And>x wb rb rest. x \<in> set xs \<Longrightarrow> buffer_ctx ver rb
        \<Longrightarrow> compat W R (fFactorySet (w x wb)) (fTFSet (w x wb)) rb
        \<Longrightarrow> rb_data rb = appended wb (w x wb) @ rest
        \<Longrightarrow> factory rb = (Some x, rb\<lparr>rb_data := rest\<rparr>)"
    and grow: "\<And>x wb. grows wb (w x wb)"
  shows "buffer_ctx ver rb
     \<Longrightarrow> compat W R (fFactorySet (fold w xs wb)) (fTFSet (fold w xs wb)) rb
     \<Longrightarrow> rb_data rb = appended wb (fold w xs wb) @ rest
     \<Longrightarrow> new_array_loop factory (length xs) rb acc = (True, rb\<lparr>rb_data := rest\<rparr>, acc @ xs)"
  using step
proof (induction xs arbitrary: wb rb acc)
  case Nil
  then show ?case by simp
next
  case (Cons x xs)
  let ?wb1 = "w x wb" and ?wbe = "fold w xs (w x wb)"
  have g1: "grows wb ?wb1" by (rule grow)
  have g2: "grows ?wb1 ?wbe" by (rule grows_fold [of w, OF grow])
  have c1: "compat W R (fFactorySet ?wb1) (fTFSet ?wb1) rb"
    using compat_earlier [OF g2] Cons.prems(2) by simp
  have d1: "rb_data rb = appended wb ?wb1 @ (appended ?wb1 ?wbe @ rest)"
    using Cons.prems(3) appended_trans [OF g1 g2] by simp
  define rb1 where "rb1 = rb\<lparr>rb_data := appended ?wb1 ?wbe @ rest\<rparr>"
  have f: "factory rb = (Some x, rb1)"
    unfolding rb1_def by (rule Cons.prems(4) [OF _ Cons.prems(1) c1 d1]) simp
  have v: "\<not> fError rb1" using Cons.prems(1) by (simp add: rb1_def buffer_ctx_def)
  have "new_array_loop factory (length xs) rb1 (acc @ [x])
          = (True, rb1\<lparr>rb_data := rest\<rparr>, (acc @ [x]) @ xs)"
  proof (rule Cons.IH)
    show "buffer_ctx ver rb1" using Cons.prems(1) by (simp add: rb1_def)
    show "compat W R (fFactorySet ?wbe) (fTFSet ?wbe) rb1"
      using Cons.prems(2) by (simp add: rb1_def)
    show "rb_data rb1 = appended ?wb1 ?wbe @ rest" by (simp add: rb1_def)
    show "factory rb' = (Some y, rb'\<lparr>rb_data := rest'\<rparr>)"
      if "y \<in> set xs" "buffer_ctx ver rb'"
        "compat W R (fFactorySet (w y wb')) (fTFSet (w y wb')) rb'"
        "rb_data rb' = appended wb' (w y wb') @ rest'" for y wb' rb' rest'
      using that Cons.prems(4) [of y rb' wb' rest'] by simp
  qed
  then show ?case using f v by (simp add: validate_pass rb1_def)
qed

lemma read_paints_reads_back:
  assumes ok: "\<And>p. p \<in> set ps
        \<Longrightarrow> round_trips W R ver (writePaint W procs p) (readPaint R) (\<lambda>n. (p, True, n))"
  shows "buffer_ctx ver rb
     \<Longrightarrow> compat W R (fFactorySet (fold (\<lambda>p. write_flat (writePaint W procs p)) ps wb))
           (fTFSet (fold (\<lambda>p. write_flat (writePaint W procs p)) ps wb)) rb
     \<Longrightarrow> rb_data rb = appended wb (fold (\<lambda>p. write_flat (writePaint W procs p)) ps wb) @ rest
     \<Longrightarrow> read_paints R (length ps) d rb
           = (set_fPaints (fPaints d @ ps) d, rb\<lparr>rb_data := rest\<rparr>)"
  using ok
proof (induction ps arbitrary: wb rb d)
  case Nil
  then show ?case by (cases d) simp
next
  case (Cons p ps)
  let ?w = "\<lambda>p. write_flat (writePaint W procs p)"
  let ?wb1 = "?w p wb" and ?wbe = "fold ?w ps (?w p wb)"
  have g1: "grows wb ?wb1" by (rule grows_write_flat)
  have g2: "grows ?wb1 ?wbe" by (rule grows_fold [of ?w]) (rule grows_write_flat)
  have c1: "compat W R (fFactorySet ?wb1) (fTFSet ?wb1) rb"
    using compat_earlier [OF g2] Cons.prems(2) by simp
  have d1: "rb_data rb = appended wb ?wb1 @ (appended ?wb1 ?wbe @ rest)"
    using Cons.prems(3) appended_trans [OF g1 g2] by simp
  define rb1 where "rb1 = rb\<lparr>rb_data := appended ?wb1 ?wbe @ rest\<rparr>"
  have f: "slot_read (readPaint R) rb = (p, True, rb1)"
    unfolding rb1_def
    by (rule slot_read_round_trip [OF Cons.prems(4) Cons.prems(1) c1 d1]) simp
  have "read_paints R (length ps) (set_fPaints (fPaints d @ [p]) d) rb1
          = (set_fPaints (fPaints (set_fPaints (fPaints d @ [p]) d) @ ps)
               (set_fPaints (fPaints d @ [p]) d), rb1\<lparr>rb_data := rest\<rparr>)"
  proof (rule Cons.IH)
    show "buffer_ctx ver rb1" using Cons.prems(1) by (simp add: rb1_def)
    show "compat W R (fFactorySet ?wbe) (fTFSet ?wbe) rb1"
      using Cons.prems(2) by (simp add: rb1_def)
    show "rb_data rb1 = appended ?wb1 ?wbe @ rest" by (simp add: rb1_def)
    show "round_trips W R ver (writePaint W procs q) (readPaint R) (\<lambda>n. (q, True, n))"
      if "q \<in> set ps" for q
      using that Cons.prems(4) [of q] by simp
  qed
  then show ?case using f by (cases d) (simp add: rb1_def)
qed

lemma read_paths_reads_back:
  assumes ok: "\<And>p. p \<in> set ps
        \<Longrightarrow> round_trips W R ver (writePath W procs p) (readPath R) (\<lambda>n. (p, True, n))"
  shows "buffer_ctx ver rb
     \<Longrightarrow> compat W R (fFactorySet (fold (\<lambda>p. write_flat (writePath W procs p)) ps wb))
           (fTFSet (fold (\<lambda>p. write_flat (writePath W procs p)) ps wb)) rb
     \<Longrightarrow> rb_data rb = appended wb (fold (\<lambda>p. write_flat (writePath W procs p)) ps wb) @ rest
     \<Longrightarrow> read_paths R (length ps) d rb
           = (set_fPaths (fPaths d @ ps) d, rb\<lparr>rb_data := rest\<rparr>)"
  using ok
proof (induction ps arbitrary: wb rb d)
  case Nil
  then show ?case by (cases d) simp
next
  case (Cons p ps)
  let ?w = "\<lambda>p. write_flat (writePath W procs p)"
  let ?wb1 = "?w p wb" and ?wbe = "fold ?w ps (?w p wb)"
  have g1: "grows wb ?wb1" by (rule grows_write_flat)
  have g2: "grows ?wb1 ?wbe" by (rule grows_fold [of ?w]) (rule grows_write_flat)
  have c1: "compat W R (fFactorySet ?wb1) (fTFSet ?wb1) rb"
    using compat_earlier [OF g2] Cons.prems(2) by simp
  have d1: "rb_data rb = appended wb ?wb1 @ (appended ?wb1 ?wbe @ rest)"
    using Cons.prems(3) appended_trans [OF g1 g2] by simp
  define rb1 where "rb1 = rb\<lparr>rb_data := appended ?wb1 ?wbe @ rest\<rparr>"
  have f: "slot_read (readPath R) rb = (p, True, rb1)"
    unfolding rb1_def
    by (rule slot_read_round_trip [OF Cons.prems(4) Cons.prems(1) c1 d1]) simp
  have v: "isValid rb1" using Cons.prems(1) by (simp add: rb1_def buffer_ctx_def isValid_def)
  have "read_paths R (length ps) (set_fPaths (fPaths d @ [p]) d) rb1
          = (set_fPaths (fPaths (set_fPaths (fPaths d @ [p]) d) @ ps)
               (set_fPaths (fPaths d @ [p]) d), rb1\<lparr>rb_data := rest\<rparr>)"
  proof (rule Cons.IH)
    show "buffer_ctx ver rb1" using Cons.prems(1) by (simp add: rb1_def)
    show "compat W R (fFactorySet ?wbe) (fTFSet ?wbe) rb1"
      using Cons.prems(2) by (simp add: rb1_def)
    show "rb_data rb1 = appended ?wb1 ?wbe @ rest" by (simp add: rb1_def)
    show "round_trips W R ver (writePath W procs q) (readPath R) (\<lambda>n. (q, True, n))"
      if "q \<in> set ps" for q
      using that Cons.prems(4) [of q] by simp
  qed
  then show ?case using f v by (cases d) (simp add: rb1_def)
qed

subsection \<open>Vertices\<close>

lemma SkAlign4_ge: "n \<le> SkAlign4 n"
  by (simp add: SkAlign4_def)

lemma create_vertices_reads_back:
  assumes "Vertices_Decode R (Vertices_encode W v) = Some v"
    and "length (Vertices_encode W v) < 2 ^ 32"
    and "\<not> fError rb"
    and "rb_data rb = appended wb (writeDataAsByteArray (Vertices_encode W v) wb) @ rest"
  shows "create_vertices_from_buffer R rb = (Some v, rb\<lparr>rb_data := rest\<rparr>)"
proof -
  let ?data = "Vertices_encode W v"
  let ?pad = "replicate (SkAlign4 (length ?data) - length ?data) (0 :: byte)"
  have d: "rb_data rb = write32 (of_nat (length ?data)) @ (?data @ ?pad @ rest)"
    using assms(4) by (simp add: appended_writeDataAsByteArray)
  have rb: "rb = rb\<lparr>rb_data := write32 (of_nat (length ?data)) @ (?data @ ?pad @ rest)\<rparr>"
    using d by simp
  have r: "readUInt rb = (of_nat (length ?data), rb\<lparr>rb_data := ?data @ ?pad @ rest\<rparr>)"
    using readUInt_write32 [OF assms(3), of "of_nat (length ?data)" "?data @ ?pad @ rest"] rb
    by simp
  have len: "length (?data @ ?pad) = SkAlign4 (length ?data)"
    using SkAlign4_ge [of "length ?data"] by simp
  have le: "SkAlign4 (length ?data) \<le> length (?data @ ?pad @ rest)"
    using len by simp
  have dr: "drop (SkAlign4 (length ?data)) (?data @ ?pad @ rest) = rest"
    using len by (metis append.assoc append_eq_conv_conj)
  have "readByteArrayAsData rb = (Some ?data, rb\<lparr>rb_data := rest\<rparr>)"
    using r assms(2,3) le dr
    by (simp add: readByteArrayAsData_def unat_of_nat32 validate_def del: length_append)
  then show ?thesis using assms(1) by (simp add: create_vertices_from_buffer_def)
qed

subsection \<open>The sections of the structured buffer\<close>

lemma sel_other [simp]:
  "fPaints (set_fOpData v0 d) = fPaints d"
  "fPaths (set_fOpData v0 d) = fPaths d"
  "fTextBlobs (set_fOpData v0 d) = fTextBlobs d"
  "fVertices (set_fOpData v0 d) = fVertices d"
  "fImages (set_fOpData v0 d) = fImages d"
  "fDrawables (set_fOpData v0 d) = fDrawables d"
  "fPictures (set_fOpData v0 d) = fPictures d"
  "fInfo (set_fOpData v0 d) = fInfo d"
  "fFactoryPlayback (set_fOpData v0 d) = fFactoryPlayback d"
  "fTFPlayback (set_fOpData v0 d) = fTFPlayback d"
  "fOpData (set_fPaints v1 d) = fOpData d"
  "fPaths (set_fPaints v1 d) = fPaths d"
  "fTextBlobs (set_fPaints v1 d) = fTextBlobs d"
  "fVertices (set_fPaints v1 d) = fVertices d"
  "fImages (set_fPaints v1 d) = fImages d"
  "fDrawables (set_fPaints v1 d) = fDrawables d"
  "fPictures (set_fPaints v1 d) = fPictures d"
  "fInfo (set_fPaints v1 d) = fInfo d"
  "fFactoryPlayback (set_fPaints v1 d) = fFactoryPlayback d"
  "fTFPlayback (set_fPaints v1 d) = fTFPlayback d"
  "fOpData (set_fPaths v2 d) = fOpData d"
  "fPaints (set_fPaths v2 d) = fPaints d"
  "fTextBlobs (set_fPaths v2 d) = fTextBlobs d"
  "fVertices (set_fPaths v2 d) = fVertices d"
  "fImages (set_fPaths v2 d) = fImages d"
  "fDrawables (set_fPaths v2 d) = fDrawables d"
  "fPictures (set_fPaths v2 d) = fPictures d"
  "fInfo (set_fPaths v2 d) = fInfo d"
  "fFactoryPlayback (set_fPaths v2 d) = fFactoryPlayback d"
  "fTFPlayback (set_fPaths v2 d) = fTFPlayback d"
  "fOpData (set_fTextBlobs v3 d) = fOpData d"
  "fPaints (set_fTextBlobs v3 d) = fPaints d"
  "fPaths (set_fTextBlobs v3 d) = fPaths d"
  "fVertices (set_fTextBlobs v3 d) = fVertices d"
  "fImages (set_fTextBlobs v3 d) = fImages d"
  "fDrawables (set_fTextBlobs v3 d) = fDrawables d"
  "fPictures (set_fTextBlobs v3 d) = fPictures d"
  "fInfo (set_fTextBlobs v3 d) = fInfo d"
  "fFactoryPlayback (set_fTextBlobs v3 d) = fFactoryPlayback d"
  "fTFPlayback (set_fTextBlobs v3 d) = fTFPlayback d"
  "fOpData (set_fVertices v4 d) = fOpData d"
  "fPaints (set_fVertices v4 d) = fPaints d"
  "fPaths (set_fVertices v4 d) = fPaths d"
  "fTextBlobs (set_fVertices v4 d) = fTextBlobs d"
  "fImages (set_fVertices v4 d) = fImages d"
  "fDrawables (set_fVertices v4 d) = fDrawables d"
  "fPictures (set_fVertices v4 d) = fPictures d"
  "fInfo (set_fVertices v4 d) = fInfo d"
  "fFactoryPlayback (set_fVertices v4 d) = fFactoryPlayback d"
  "fTFPlayback (set_fVertices v4 d) = fTFPlayback d"
  "fOpData (set_fImages v5 d) = fOpData d"
  "fPaints (set_fImages v5 d) = fPaints d"
  "fPaths (set_fImages v5 d) = fPaths d"
  "fTextBlobs (set_fImages v5 d) = fTextBlobs d"
  "fVertices (set_fImages v5 d) = fVertices d"
  "fDrawables (set_fImages v5 d) = fDrawables d"
  "fPictures (set_fImages v5 d) = fPictures d"
  "fInfo (set_fImages v5 d) = fInfo d"
  "fFactoryPlayback (set_fImages v5 d) = fFactoryPlayback d"
  "fTFPlayback (set_fImages v5 d) = fTFPlayback d"
  "fOpData (set_fDrawables v6 d) = fOpData d"
  "fPaints (set_fDrawables v6 d) = fPaints d"
  "fPaths (set_fDrawables v6 d) = fPaths d"
  "fTextBlobs (set_fDrawables v6 d) = fTextBlobs d"
  "fVertices (set_fDrawables v6 d) = fVertices d"
  "fImages (set_fDrawables v6 d) = fImages d"
  "fPictures (set_fDrawables v6 d) = fPictures d"
  "fInfo (set_fDrawables v6 d) = fInfo d"
  "fFactoryPlayback (set_fDrawables v6 d) = fFactoryPlayback d"
  "fTFPlayback (set_fDrawables v6 d) = fTFPlayback d"
  "fOpData (set_fPictures v7 d) = fOpData d"
  "fPaints (set_fPictures v7 d) = fPaints d"
  "fPaths (set_fPictures v7 d) = fPaths d"
  "fTextBlobs (set_fPictures v7 d) = fTextBlobs d"
  "fVertices (set_fPictures v7 d) = fVertices d"
  "fImages (set_fPictures v7 d) = fImages d"
  "fDrawables (set_fPictures v7 d) = fDrawables d"
  "fInfo (set_fPictures v7 d) = fInfo d"
  "fFactoryPlayback (set_fPictures v7 d) = fFactoryPlayback d"
  "fTFPlayback (set_fPictures v7 d) = fTFPlayback d"
  "fOpData (set_fFactoryPlayback v8 d) = fOpData d"
  "fPaints (set_fFactoryPlayback v8 d) = fPaints d"
  "fPaths (set_fFactoryPlayback v8 d) = fPaths d"
  "fTextBlobs (set_fFactoryPlayback v8 d) = fTextBlobs d"
  "fVertices (set_fFactoryPlayback v8 d) = fVertices d"
  "fImages (set_fFactoryPlayback v8 d) = fImages d"
  "fDrawables (set_fFactoryPlayback v8 d) = fDrawables d"
  "fPictures (set_fFactoryPlayback v8 d) = fPictures d"
  "fInfo (set_fFactoryPlayback v8 d) = fInfo d"
  "fTFPlayback (set_fFactoryPlayback v8 d) = fTFPlayback d"
  "fOpData (set_fTFPlayback v9 d) = fOpData d"
  "fPaints (set_fTFPlayback v9 d) = fPaints d"
  "fPaths (set_fTFPlayback v9 d) = fPaths d"
  "fTextBlobs (set_fTFPlayback v9 d) = fTextBlobs d"
  "fVertices (set_fTFPlayback v9 d) = fVertices d"
  "fImages (set_fTFPlayback v9 d) = fImages d"
  "fDrawables (set_fTFPlayback v9 d) = fDrawables d"
  "fPictures (set_fTFPlayback v9 d) = fPictures d"
  "fInfo (set_fTFPlayback v9 d) = fInfo d"
  "fFactoryPlayback (set_fTFPlayback v9 d) = fFactoryPlayback d"
  by (cases d; simp)+

lemma set_same [simp]:
  "fPaints d = [] \<Longrightarrow> set_fPaints [] d = d"
  "fPaths d = [] \<Longrightarrow> set_fPaths [] d = d"
  "fTextBlobs d = [] \<Longrightarrow> set_fTextBlobs [] d = d"
  "fVertices d = [] \<Longrightarrow> set_fVertices [] d = d"
  "fImages d = [] \<Longrightarrow> set_fImages [] d = d"
  by (cases d; simp)+

lemma parseBufferLoop_section:
  assumes "\<not> fError rb" and "rb_data rb = write32 tag @ write32 sz @ s"
    and "parseBufferTag T R d (rb\<lparr>rb_data := s\<rparr>) tag sz = (d', rb')"
  shows "parseBufferLoop T R d rb = parseBufferLoop T R d' rb'"
proof -
  have rb: "rb = rb\<lparr>rb_data := write32 tag @ write32 sz @ s\<rparr>" using assms(2) by simp
  have r1: "readUInt rb = (tag, rb\<lparr>rb_data := write32 sz @ s\<rparr>)"
    using readUInt_write32 [OF assms(1), of tag "write32 sz @ s"] rb by simp
  have r2: "readUInt (rb\<lparr>rb_data := write32 sz @ s\<rparr>) = (sz, rb\<lparr>rb_data := s\<rparr>)"
    using readUInt_write32 [of "rb\<lparr>rb_data := write32 sz @ s\<rparr>" sz s] assms(1) by simp
  have "\<not> eof rb" using assms(2) by (simp add: eof_def write32_def)
  then show ?thesis
    using assms(1,3) r1 r2 by (simp add: parseBufferLoop.simps [of T R d rb] isValid_def)
qed

lemma inner_dispatch_slots:
  assumes "tags_distinct T"
  shows "parseBufferTag T R d b (SK_PICT_PAINT_BUFFER_TAG T) sz =
           (case validate (SkTFitsIn_int sz) b of (ok, b1) \<Rightarrow>
              if \<not> ok then (d, b1) else read_paints R (unat sz) d b1)"
    and "parseBufferTag T R d b (SK_PICT_PATH_BUFFER_TAG T) sz =
           (if sz > 0 then
              (case readInt b of (count, b1) \<Rightarrow>
                 (case validate (count \<ge> 0) b1 of (ok, b2) \<Rightarrow>
                    if \<not> ok then (d, b2) else read_paths R (nat count) d b2))
            else (d, b))"
  by (simp_all add: parseBufferTag_def tag_neq [OF assms])

lemma paint_section:
  assumes dist: "tags_distinct T" and n: "0 < length ps" "length ps < 2 ^ 31"
    and ok: "\<And>p. p \<in> set ps
        \<Longrightarrow> round_trips W R ver (writePaint W procs p) (readPaint R) (\<lambda>n. (p, True, n))"
    and ctx: "buffer_ctx ver rb"
    and wbe: "wbe = fold (\<lambda>p. write_flat (writePaint W procs p)) ps
                      (write_tag_size_buffer (SK_PICT_PAINT_BUFFER_TAG T) (length ps) wb)"
    and compat: "compat W R (fFactorySet wbe) (fTFSet wbe) rb"
    and data: "rb_data rb = appended wb wbe @ rest"
  shows "parseBufferLoop T R d rb
           = parseBufferLoop T R (set_fPaints (fPaints d @ ps) d) (rb\<lparr>rb_data := rest\<rparr>)"
proof -
  let ?w = "\<lambda>p. write_flat (writePaint W procs p)"
  let ?wb1 = "write_tag_size_buffer (SK_PICT_PAINT_BUFFER_TAG T) (length ps) wb"
  have g1: "grows wb ?wb1" by (rule grows_write_tag_size_buffer)
  have g2: "grows ?wb1 wbe" unfolding wbe by (rule grows_fold [of ?w]) (rule grows_write_flat)
  have d: "rb_data rb = write32 (SK_PICT_PAINT_BUFFER_TAG T) @ write32 (of_nat (length ps))
                          @ (appended ?wb1 wbe @ rest)"
    using data appended_trans [OF g1 g2] by (simp add: appended_write_tag_size_buffer)
  have v: "\<not> fError rb" using ctx by (simp add: buffer_ctx_def)
  have "read_paints R (length ps) d (rb\<lparr>rb_data := appended ?wb1 wbe @ rest\<rparr>)
          = (set_fPaints (fPaints d @ ps) d,
             rb\<lparr>rb_data := appended ?wb1 wbe @ rest\<rparr>\<lparr>rb_data := rest\<rparr>)"
    using ctx compat
    by (intro read_paints_reads_back [where wb = ?wb1 and W = W and procs = procs and ver = ver])
       (simp_all add: ok wbe)
  then have "parseBufferTag T R d (rb\<lparr>rb_data := appended ?wb1 wbe @ rest\<rparr>)
               (SK_PICT_PAINT_BUFFER_TAG T) (of_nat (length ps))
             = (set_fPaints (fPaints d @ ps) d, rb\<lparr>rb_data := rest\<rparr>)"
    using v n
    by (simp add: inner_dispatch_slots(1) [OF dist] validate_pass fits_int_of_nat unat_of_nat32)
  then show ?thesis by (rule parseBufferLoop_section [OF v d])
qed

lemma path_section:
  assumes dist: "tags_distinct T" and n: "0 < length ps" "length ps < 2 ^ 31"
    and ok: "\<And>p. p \<in> set ps
        \<Longrightarrow> round_trips W R ver (writePath W procs p) (readPath R) (\<lambda>n. (p, True, n))"
    and ctx: "buffer_ctx ver rb"
    and wbe: "wbe = fold (\<lambda>p. write_flat (writePath W procs p)) ps
                      (writeUInt (of_nat (length ps))
                         (write_tag_size_buffer (SK_PICT_PATH_BUFFER_TAG T) (length ps) wb))"
    and compat: "compat W R (fFactorySet wbe) (fTFSet wbe) rb"
    and data: "rb_data rb = appended wb wbe @ rest"
  shows "parseBufferLoop T R d rb
           = parseBufferLoop T R (set_fPaths (fPaths d @ ps) d) (rb\<lparr>rb_data := rest\<rparr>)"
proof -
  let ?w = "\<lambda>p. write_flat (writePath W procs p)"
  let ?wb0 = "write_tag_size_buffer (SK_PICT_PATH_BUFFER_TAG T) (length ps) wb"
  let ?wb1 = "writeUInt (of_nat (length ps)) ?wb0"
  have g0: "grows wb ?wb0" by (rule grows_write_tag_size_buffer)
  have g1: "grows ?wb0 ?wb1" by (rule grows_writeUInt)
  have g2: "grows ?wb1 wbe" unfolding wbe by (rule grows_fold [of ?w]) (rule grows_write_flat)
  have d: "rb_data rb = write32 (SK_PICT_PATH_BUFFER_TAG T) @ write32 (of_nat (length ps))
                          @ (write32 (of_nat (length ps)) @ appended ?wb1 wbe @ rest)"
    using data appended_trans [OF g0 grows_trans [OF g1 g2]] appended_trans [OF g1 g2]
    by (simp add: appended_write_tag_size_buffer appended_writeUInt)
  have v: "\<not> fError rb" using ctx by (simp add: buffer_ctx_def)
  have pos: "(of_nat (length ps) :: u32) > 0"
    using n of_nat32_eq_0 [of "length ps"] by (simp add: word_greater_zero_iff)
  have count: "readInt (rb\<lparr>rb_data := write32 (of_nat (length ps)) @ appended ?wb1 wbe @ rest\<rparr>)
                 = (int (length ps), rb\<lparr>rb_data := appended ?wb1 wbe @ rest\<rparr>)"
    using readUInt_write32 [of "rb\<lparr>rb_data := []\<rparr>" "of_nat (length ps)"
                              "appended ?wb1 wbe @ rest"] v n
    by (simp add: readInt_def sint_of_nat32)
  have "read_paths R (length ps) d (rb\<lparr>rb_data := appended ?wb1 wbe @ rest\<rparr>)
          = (set_fPaths (fPaths d @ ps) d,
             rb\<lparr>rb_data := appended ?wb1 wbe @ rest\<rparr>\<lparr>rb_data := rest\<rparr>)"
    using ctx compat
    by (intro read_paths_reads_back [where wb = ?wb1 and W = W and procs = procs and ver = ver])
       (simp_all add: ok wbe)
  then have "parseBufferTag T R d
               (rb\<lparr>rb_data := write32 (of_nat (length ps)) @ appended ?wb1 wbe @ rest\<rparr>)
               (SK_PICT_PATH_BUFFER_TAG T) (of_nat (length ps))
             = (set_fPaths (fPaths d @ ps) d, rb\<lparr>rb_data := rest\<rparr>)"
    using v pos count by (simp add: inner_dispatch_slots(2) [OF dist] validate_pass)
  then show ?thesis by (rule parseBufferLoop_section [OF v d])
qed

lemma new_array_from_buffer_reads_back:
  assumes n: "0 < length xs" "length xs < 2 ^ 31" and v: "\<not> fError rb"
    and loop: "new_array_loop factory (length xs) rb [] = (True, rb', xs)"
  shows "new_array_from_buffer rb (of_nat (length xs)) [] factory = (True, rb', xs)"
  using n v loop of_nat32_eq_0 [of "length xs"]
  by (simp add: new_array_from_buffer_def validate_pass fits_int_of_nat unat_of_nat32)

lemma array_section:
  assumes n: "0 < length xs" "length xs < 2 ^ 31"
    and step: "\<And>x wb rb rest. x \<in> set xs \<Longrightarrow> buffer_ctx ver rb
        \<Longrightarrow> compat W R (fFactorySet (w x wb)) (fTFSet (w x wb)) rb
        \<Longrightarrow> rb_data rb = appended wb (w x wb) @ rest
        \<Longrightarrow> factory rb = (Some x, rb\<lparr>rb_data := rest\<rparr>)"
    and grow: "\<And>x wb. grows wb (w x wb)"
    and ctx: "buffer_ctx ver rb"
    and wbe: "wbe = fold w xs (write_tag_size_buffer tag (length xs) wb)"
    and compat: "compat W R (fFactorySet wbe) (fTFSet wbe) rb"
    and data: "rb_data rb = appended wb wbe @ rest"
    and tag: "\<And>b. parseBufferTag T R d b tag (of_nat (length xs)) =
                (case new_array_from_buffer b (of_nat (length xs)) [] factory of
                   (ok, b', array) \<Rightarrow> (upd array, b'))"
  shows "parseBufferLoop T R d rb = parseBufferLoop T R (upd xs) (rb\<lparr>rb_data := rest\<rparr>)"
proof -
  let ?wb1 = "write_tag_size_buffer tag (length xs) wb"
  have g1: "grows wb ?wb1" by (rule grows_write_tag_size_buffer)
  have g2: "grows ?wb1 wbe" unfolding wbe by (rule grows_fold [of w, OF grow])
  have d: "rb_data rb = write32 tag @ write32 (of_nat (length xs)) @ (appended ?wb1 wbe @ rest)"
    using data appended_trans [OF g1 g2] by (simp add: appended_write_tag_size_buffer)
  have v: "\<not> fError rb" using ctx by (simp add: buffer_ctx_def)
  have "new_array_loop factory (length xs) (rb\<lparr>rb_data := appended ?wb1 wbe @ rest\<rparr>) []
          = (True, rb\<lparr>rb_data := appended ?wb1 wbe @ rest\<rparr>\<lparr>rb_data := rest\<rparr>, [] @ xs)"
    using ctx compat
    by (intro new_array_loop_reads_back
                [where wb = ?wb1 and w = w and W = W and R = R and ver = ver])
       (simp_all add: step grow wbe)
  then have "new_array_from_buffer (rb\<lparr>rb_data := appended ?wb1 wbe @ rest\<rparr>)
               (of_nat (length xs)) [] factory = (True, rb\<lparr>rb_data := rest\<rparr>, xs)"
    using n v by (intro new_array_from_buffer_reads_back) simp_all
  then have "parseBufferTag T R d (rb\<lparr>rb_data := appended ?wb1 wbe @ rest\<rparr>) tag
               (of_nat (length xs)) = (upd xs, rb\<lparr>rb_data := rest\<rparr>)"
    by (simp add: tag)
  then show ?thesis by (rule parseBufferLoop_section [OF v d])
qed

subsection \<open>The whole structured buffer\<close>

text \<open>
  The resources of one picture data are well-formed: each paint, path, text blob and
  image makes its flattenable's own round trip under the callbacks \<open>procs\<close>, the encoding
  of each vertices object decodes to it and has a 32-bit length, and the number of items
  of each array fits in \<^verbatim>\<open>int\<close>.
\<close>

definition resources_ok ::
  "('pn, 'pt, 'bl, 'vx, 'im, 'tf, 'fc, 'pr) writers
     \<Rightarrow> ('pn, 'pt, 'bl, 'vx, 'im, 'dr, 'tf, 'fc) readers \<Rightarrow> 'pr \<Rightarrow> u32
     \<Rightarrow> ('pn, 'pt, 'bl, 'vx, 'im, 'dr, 'tf, 'fc) SkPictureData \<Rightarrow> bool" where
  "resources_ok W R procs ver d \<longleftrightarrow>
     (\<forall>p\<in>set (fPaints d).
        round_trips W R ver (writePaint W procs p) (readPaint R) (\<lambda>n. (p, True, n)))
     \<and> (\<forall>p\<in>set (fPaths d).
        round_trips W R ver (writePath W procs p) (readPath R) (\<lambda>n. (p, True, n)))
     \<and> (\<forall>b\<in>set (fTextBlobs d).
        round_trips W R ver (TextBlob_flatten W procs b) (TextBlob_MakeFromBuffer R)
          (\<lambda>n. (Some b, n)))
     \<and> (\<forall>v\<in>set (fVertices d).
        Vertices_Decode R (Vertices_encode W v) = Some v
        \<and> length (Vertices_encode W v) < 2 ^ 32)
     \<and> (\<forall>i\<in>set (fImages d).
        round_trips W R ver (writeImage W procs i) (readImage R) (\<lambda>n. (Some i, n)))
     \<and> length (fPaints d) < 2 ^ 31 \<and> length (fPaths d) < 2 ^ 31
     \<and> length (fTextBlobs d) < 2 ^ 31 \<and> length (fVertices d) < 2 ^ 31
     \<and> length (fImages d) < 2 ^ 31"

lemma same_data: "rb_data rb = s \<Longrightarrow> rb\<lparr>rb_data := s\<rparr> = rb"
  by simp

lemma paint_stage:
  assumes dist: "tags_distinct T" and n: "length ps < 2 ^ 31"
    and ok: "\<And>p. p \<in> set ps
        \<Longrightarrow> round_trips W R ver (writePaint W procs p) (readPaint R) (\<lambda>n. (p, True, n))"
    and ctx: "buffer_ctx ver rb"
    and wbe: "wbe = (if length ps > 0
                     then fold (\<lambda>p. write_flat (writePaint W procs p)) ps
                            (write_tag_size_buffer (SK_PICT_PAINT_BUFFER_TAG T) (length ps) wb)
                     else wb)"
    and compat: "compat W R (fFactorySet wbe) (fTFSet wbe) rb"
    and data: "rb_data rb = appended wb wbe @ rest"
    and empty: "fPaints d = []"
  shows "parseBufferLoop T R d rb
           = parseBufferLoop T R (set_fPaints ps d) (rb\<lparr>rb_data := rest\<rparr>)"
proof (cases "ps = []")
  case True
  then show ?thesis using wbe data empty by (simp add: same_data)
next
  case False
  then show ?thesis
    using paint_section [where ps = ps and wb = wb and d = d and wbe = wbe and rest = rest
                           and rb = rb and W = W and R = R and procs = procs and ver = ver
                           and T = T]
          dist n ok ctx compat data wbe empty
    by simp
qed

lemma path_stage:
  assumes dist: "tags_distinct T" and n: "length ps < 2 ^ 31"
    and ok: "\<And>p. p \<in> set ps
        \<Longrightarrow> round_trips W R ver (writePath W procs p) (readPath R) (\<lambda>n. (p, True, n))"
    and ctx: "buffer_ctx ver rb"
    and wbe: "wbe = (if length ps > 0
                     then fold (\<lambda>p. write_flat (writePath W procs p)) ps
                            (writeUInt (of_nat (length ps))
                               (write_tag_size_buffer (SK_PICT_PATH_BUFFER_TAG T) (length ps) wb))
                     else wb)"
    and compat: "compat W R (fFactorySet wbe) (fTFSet wbe) rb"
    and data: "rb_data rb = appended wb wbe @ rest"
    and empty: "fPaths d = []"
  shows "parseBufferLoop T R d rb
           = parseBufferLoop T R (set_fPaths ps d) (rb\<lparr>rb_data := rest\<rparr>)"
proof (cases "ps = []")
  case True
  then show ?thesis using wbe data empty by (simp add: same_data)
next
  case False
  then show ?thesis
    using path_section [where ps = ps and wb = wb and d = d and wbe = wbe and rest = rest
                          and rb = rb and W = W and R = R and procs = procs and ver = ver
                          and T = T]
          dist n ok ctx compat data wbe empty
    by simp
qed

lemma blob_stage:
  assumes dist: "tags_distinct T" and n: "length xs < 2 ^ 31"
    and ok: "\<And>x. x \<in> set xs
        \<Longrightarrow> round_trips W R ver (TextBlob_flatten W procs x) (TextBlob_MakeFromBuffer R)
              (\<lambda>n. (Some x, n))"
    and ctx: "buffer_ctx ver rb"
    and wbe: "wbe = (if xs \<noteq> []
                     then fold (\<lambda>blob. write_flat (TextBlob_flatten W procs blob)) xs
                            (write_tag_size_buffer (SK_PICT_TEXTBLOB_BUFFER_TAG T) (length xs) wb)
                     else wb)"
    and compat: "compat W R (fFactorySet wbe) (fTFSet wbe) rb"
    and data: "rb_data rb = appended wb wbe @ rest"
    and empty: "fTextBlobs d = []"
  shows "parseBufferLoop T R d rb
           = parseBufferLoop T R (set_fTextBlobs xs d) (rb\<lparr>rb_data := rest\<rparr>)"
proof (cases "xs = []")
  case True
  then show ?thesis using wbe data empty by (simp add: same_data)
next
  case False
  show ?thesis
  proof (rule array_section
             [where w = "\<lambda>blob. write_flat (TextBlob_flatten W procs blob)" and wb = wb
                and wbe = wbe and W = W and R = R and ver = ver
                and factory = "typed_read (TextBlob_MakeFromBuffer R)"
                and tag = "SK_PICT_TEXTBLOB_BUFFER_TAG T"])
    show "0 < length xs" using False by simp
    show "length xs < 2 ^ 31" by (rule n)
    show "typed_read (TextBlob_MakeFromBuffer R) rb' = (Some x, rb'\<lparr>rb_data := rest'\<rparr>)"
      if "x \<in> set xs" "buffer_ctx ver rb'"
        "compat W R (fFactorySet (write_flat (TextBlob_flatten W procs x) wb'))
           (fTFSet (write_flat (TextBlob_flatten W procs x) wb')) rb'"
        "rb_data rb' = appended wb' (write_flat (TextBlob_flatten W procs x) wb') @ rest'"
      for x wb' rb' rest'
      using typed_read_round_trip [OF ok [OF that(1)] that(2,3,4)] .
    show "grows wb' (write_flat (TextBlob_flatten W procs x) wb')" for x wb'
      by (rule grows_write_flat)
    show "buffer_ctx ver rb" by (rule ctx)
    show "wbe = fold (\<lambda>blob. write_flat (TextBlob_flatten W procs blob)) xs
                  (write_tag_size_buffer (SK_PICT_TEXTBLOB_BUFFER_TAG T) (length xs) wb)"
      using wbe False by simp
    show "compat W R (fFactorySet wbe) (fTFSet wbe) rb" by (rule compat)
    show "rb_data rb = appended wb wbe @ rest" by (rule data)
    show "parseBufferTag T R d b (SK_PICT_TEXTBLOB_BUFFER_TAG T) (of_nat (length xs)) =
            (case new_array_from_buffer b (of_nat (length xs)) []
                    (typed_read (TextBlob_MakeFromBuffer R)) of
               (ok, b', array) \<Rightarrow> (set_fTextBlobs array d, b'))" for b
      using inner_dispatch(1) [OF dist, of R d b] empty by simp
  qed
qed

lemma vertices_stage:
  assumes dist: "tags_distinct T" and n: "length xs < 2 ^ 31"
    and ok: "\<And>x. x \<in> set xs
        \<Longrightarrow> Vertices_Decode R (Vertices_encode W x) = Some x
            \<and> length (Vertices_encode W x) < 2 ^ 32"
    and ctx: "buffer_ctx ver rb"
    and wbe: "wbe = (if xs \<noteq> []
                     then fold (\<lambda>vert. writeDataAsByteArray (Vertices_encode W vert)) xs
                            (write_tag_size_buffer (SK_PICT_VERTICES_BUFFER_TAG T) (length xs) wb)
                     else wb)"
    and compat: "compat W R (fFactorySet wbe) (fTFSet wbe) rb"
    and data: "rb_data rb = appended wb wbe @ rest"
    and empty: "fVertices d = []"
  shows "parseBufferLoop T R d rb
           = parseBufferLoop T R (set_fVertices xs d) (rb\<lparr>rb_data := rest\<rparr>)"
proof (cases "xs = []")
  case True
  then show ?thesis using wbe data empty by (simp add: same_data)
next
  case False
  show ?thesis
  proof (rule array_section
             [where w = "\<lambda>vert. writeDataAsByteArray (Vertices_encode W vert)" and wb = wb
                and wbe = wbe and W = W and R = R and ver = ver
                and factory = "create_vertices_from_buffer R"
                and tag = "SK_PICT_VERTICES_BUFFER_TAG T"])
    show "0 < length xs" using False by simp
    show "length xs < 2 ^ 31" by (rule n)
    show "create_vertices_from_buffer R rb' = (Some x, rb'\<lparr>rb_data := rest'\<rparr>)"
      if "x \<in> set xs" "buffer_ctx ver rb'"
        "rb_data rb' = appended wb' (writeDataAsByteArray (Vertices_encode W x) wb') @ rest'"
      for x wb' rb' rest'
      using create_vertices_reads_back [of R W x rb' wb' rest'] ok [OF that(1)] that(2,3)
      by (simp add: buffer_ctx_def)
    show "grows wb' (writeDataAsByteArray (Vertices_encode W x) wb')" for x wb'
      by (rule grows_writeDataAsByteArray)
    show "buffer_ctx ver rb" by (rule ctx)
    show "wbe = fold (\<lambda>vert. writeDataAsByteArray (Vertices_encode W vert)) xs
                  (write_tag_size_buffer (SK_PICT_VERTICES_BUFFER_TAG T) (length xs) wb)"
      using wbe False by simp
    show "compat W R (fFactorySet wbe) (fTFSet wbe) rb" by (rule compat)
    show "rb_data rb = appended wb wbe @ rest" by (rule data)
    show "parseBufferTag T R d b (SK_PICT_VERTICES_BUFFER_TAG T) (of_nat (length xs)) =
            (case new_array_from_buffer b (of_nat (length xs)) []
                    (create_vertices_from_buffer R) of
               (ok, b', array) \<Rightarrow> (set_fVertices array d, b'))" for b
      using inner_dispatch(2) [OF dist, of R d b] empty by simp
  qed
qed

lemma image_stage:
  assumes dist: "tags_distinct T" and n: "length xs < 2 ^ 31"
    and ok: "\<And>x. x \<in> set xs
        \<Longrightarrow> round_trips W R ver (writeImage W procs x) (readImage R) (\<lambda>n. (Some x, n))"
    and ctx: "buffer_ctx ver rb"
    and wbe: "wbe = (if xs \<noteq> []
                     then fold (\<lambda>img. write_flat (writeImage W procs img)) xs
                            (write_tag_size_buffer (SK_PICT_IMAGE_BUFFER_TAG T) (length xs) wb)
                     else wb)"
    and compat: "compat W R (fFactorySet wbe) (fTFSet wbe) rb"
    and data: "rb_data rb = appended wb wbe @ rest"
    and empty: "fImages d = []"
  shows "parseBufferLoop T R d rb
           = parseBufferLoop T R (set_fImages xs d) (rb\<lparr>rb_data := rest\<rparr>)"
proof (cases "xs = []")
  case True
  then show ?thesis using wbe data empty by (simp add: same_data)
next
  case False
  show ?thesis
  proof (rule array_section
             [where w = "\<lambda>img. write_flat (writeImage W procs img)" and wb = wb
                and wbe = wbe and W = W and R = R and ver = ver
                and factory = "typed_read (readImage R)"
                and tag = "SK_PICT_IMAGE_BUFFER_TAG T"])
    show "0 < length xs" using False by simp
    show "length xs < 2 ^ 31" by (rule n)
    show "typed_read (readImage R) rb' = (Some x, rb'\<lparr>rb_data := rest'\<rparr>)"
      if "x \<in> set xs" "buffer_ctx ver rb'"
        "compat W R (fFactorySet (write_flat (writeImage W procs x) wb'))
           (fTFSet (write_flat (writeImage W procs x) wb')) rb'"
        "rb_data rb' = appended wb' (write_flat (writeImage W procs x) wb') @ rest'"
      for x wb' rb' rest'
      using typed_read_round_trip [OF ok [OF that(1)] that(2,3,4)] .
    show "grows wb' (write_flat (writeImage W procs x) wb')" for x wb'
      by (rule grows_write_flat)
    show "buffer_ctx ver rb" by (rule ctx)
    show "wbe = fold (\<lambda>img. write_flat (writeImage W procs img)) xs
                  (write_tag_size_buffer (SK_PICT_IMAGE_BUFFER_TAG T) (length xs) wb)"
      using wbe False by simp
    show "compat W R (fFactorySet wbe) (fTFSet wbe) rb" by (rule compat)
    show "rb_data rb = appended wb wbe @ rest" by (rule data)
    show "parseBufferTag T R d b (SK_PICT_IMAGE_BUFFER_TAG T) (of_nat (length xs)) =
            (case new_array_from_buffer b (of_nat (length xs)) [] (typed_read (readImage R)) of
               (ok, b', array) \<Rightarrow> (set_fImages array d, b'))" for b
      using inner_dispatch(3) [OF dist, of R d b] empty by simp
  qed
qed

lemma grows_if_fold:
  assumes "\<And>x wb. grows wb (w x wb)" and "grows wb wb0"
  shows "grows wb (if c then fold w xs wb0 else wb)"
  using grows_trans [OF assms(2) grows_fold [of w wb0 xs, OF assms(1)]] by simp

lemma flattenToBuffer_reads_back:
  assumes dist: "tags_distinct T" and ok: "resources_ok W R procs ver P"
    and ctx: "buffer_ctx ver rb"
    and wbe: "wbe = flattenToBuffer T W procs P wb"
    and compat: "compat W R (fFactorySet wbe) (fTFSet wbe) rb"
    and data: "rb_data rb = appended wb wbe"
    and empty: "fPaints d = []" "fPaths d = []" "fTextBlobs d = []" "fVertices d = []"
      "fImages d = []"
  shows "grows wb wbe"
    and "parseBufferLoop T R d rb
           = (set_fImages (fImages P) (set_fVertices (fVertices P) (set_fTextBlobs (fTextBlobs P)
                (set_fPaths (fPaths P) (set_fPaints (fPaints P) d)))),
              rb\<lparr>rb_data := []\<rparr>)"
proof -
  define b1 where "b1 = (if length (fPaints P) > 0
                then fold (\<lambda>p. write_flat (writePaint W procs p)) (fPaints P)
                       (write_tag_size_buffer (SK_PICT_PAINT_BUFFER_TAG T)
                          (length (fPaints P)) wb)
                else wb)"
  define b2 where "b2 = (if length (fPaths P) > 0
                then fold (\<lambda>p. write_flat (writePath W procs p)) (fPaths P)
                       (writeUInt (of_nat (length (fPaths P)))
                          (write_tag_size_buffer (SK_PICT_PATH_BUFFER_TAG T)
                             (length (fPaths P)) b1))
                else b1)"
  define b3 where "b3 = (if fTextBlobs P \<noteq> []
                then fold (\<lambda>blob. write_flat (TextBlob_flatten W procs blob)) (fTextBlobs P)
                       (write_tag_size_buffer (SK_PICT_TEXTBLOB_BUFFER_TAG T)
                          (length (fTextBlobs P)) b2)
                else b2)"
  define b4 where "b4 = (if fVertices P \<noteq> []
                then fold (\<lambda>vert. writeDataAsByteArray (Vertices_encode W vert)) (fVertices P)
                       (write_tag_size_buffer (SK_PICT_VERTICES_BUFFER_TAG T)
                          (length (fVertices P)) b3)
                else b3)"
  define b5 where "b5 = (if fImages P \<noteq> []
                then fold (\<lambda>img. write_flat (writeImage W procs img)) (fImages P)
                       (write_tag_size_buffer (SK_PICT_IMAGE_BUFFER_TAG T)
                          (length (fImages P)) b4)
                else b4)"
  have fl: "wbe = b5"
    unfolding wbe flattenToBuffer_def Let_def b5_def b4_def b3_def b2_def b1_def ..
  have g1: "grows wb b1" unfolding b1_def
    by (rule grows_if_fold [OF grows_write_flat grows_write_tag_size_buffer])
  have g2: "grows b1 b2" unfolding b2_def
    by (rule grows_if_fold
              [OF grows_write_flat grows_trans [OF grows_write_tag_size_buffer grows_writeUInt]])
  have g3: "grows b2 b3" unfolding b3_def
    by (rule grows_if_fold [OF grows_write_flat grows_write_tag_size_buffer])
  have g4: "grows b3 b4" unfolding b4_def
    by (rule grows_if_fold [OF grows_writeDataAsByteArray grows_write_tag_size_buffer])
  have g5: "grows b4 b5" unfolding b5_def
    by (rule grows_if_fold [OF grows_write_flat grows_write_tag_size_buffer])
  have g45: "grows b4 b5" by (rule g5)
  have g35: "grows b3 b5" by (rule grows_trans [OF g4 g5])
  have g25: "grows b2 b5" by (rule grows_trans [OF g3 g35])
  have g15: "grows b1 b5" by (rule grows_trans [OF g2 g25])
  show "grows wb wbe" unfolding fl by (rule grows_trans [OF g1 g15])
  have c5: "compat W R (fFactorySet b5) (fTFSet b5) rb" using compat fl by simp
  have c4: "compat W R (fFactorySet b4) (fTFSet b4) rb" by (rule compat_earlier [OF g45 c5])
  have c3: "compat W R (fFactorySet b3) (fTFSet b3) rb" by (rule compat_earlier [OF g35 c5])
  have c2: "compat W R (fFactorySet b2) (fTFSet b2) rb" by (rule compat_earlier [OF g25 c5])
  have c1: "compat W R (fFactorySet b1) (fTFSet b1) rb" by (rule compat_earlier [OF g15 c5])
  have a: "rb_data rb = appended wb b1 @ (appended b1 b2 @ appended b2 b3 @ appended b3 b4
                                          @ appended b4 b5)"
    using data fl appended_trans [OF g1 g15] appended_trans [OF g2 g25]
          appended_trans [OF g3 g35] appended_trans [OF g4 g45]
    by simp
  note r = ok [unfolded resources_ok_def]
  define d1 where "d1 = set_fPaints (fPaints P) d"
  define d2 where "d2 = set_fPaths (fPaths P) d1"
  define d3 where "d3 = set_fTextBlobs (fTextBlobs P) d2"
  define d4 where "d4 = set_fVertices (fVertices P) d3"
  define d5 where "d5 = set_fImages (fImages P) d4"
  have s1: "parseBufferLoop T R d rb
              = parseBufferLoop T R d1
                  (rb\<lparr>rb_data := appended b1 b2 @ appended b2 b3 @ appended b3 b4
                                   @ appended b4 b5\<rparr>)"
    unfolding d1_def
    by (rule paint_stage [where wb = wb and wbe = b1 and W = W and procs = procs and ver = ver])
       (use dist r ctx c1 a empty in \<open>simp_all add: b1_def\<close>)
  have s2: "parseBufferLoop T R d1
              (rb\<lparr>rb_data := appended b1 b2 @ appended b2 b3 @ appended b3 b4
                               @ appended b4 b5\<rparr>)
            = parseBufferLoop T R d2
                (rb\<lparr>rb_data := appended b2 b3 @ appended b3 b4 @ appended b4 b5\<rparr>)"
    using path_stage [where wb = b1 and wbe = b2 and W = W and procs = procs and ver = ver
                        and R = R and T = T and ps = "fPaths P" and d = d1
                        and rest = "appended b2 b3 @ appended b3 b4 @ appended b4 b5"
                        and rb = "rb\<lparr>rb_data := appended b1 b2 @ appended b2 b3
                                                @ appended b3 b4 @ appended b4 b5\<rparr>"]
          dist r ctx c2 empty
    by (simp add: b2_def d1_def d2_def)
  have s3: "parseBufferLoop T R d2
              (rb\<lparr>rb_data := appended b2 b3 @ appended b3 b4 @ appended b4 b5\<rparr>)
            = parseBufferLoop T R d3 (rb\<lparr>rb_data := appended b3 b4 @ appended b4 b5\<rparr>)"
    using blob_stage [where wb = b2 and wbe = b3 and W = W and procs = procs and ver = ver
                        and R = R and T = T and xs = "fTextBlobs P" and d = d2
                        and rest = "appended b3 b4 @ appended b4 b5"
                        and rb = "rb\<lparr>rb_data := appended b2 b3 @ appended b3 b4
                                                @ appended b4 b5\<rparr>"]
          dist r ctx c3 empty
    by (simp add: b3_def d1_def d2_def d3_def)
  have s4: "parseBufferLoop T R d3 (rb\<lparr>rb_data := appended b3 b4 @ appended b4 b5\<rparr>)
            = parseBufferLoop T R d4 (rb\<lparr>rb_data := appended b4 b5\<rparr>)"
    using vertices_stage [where wb = b3 and wbe = b4 and W = W and ver = ver
                        and R = R and T = T and xs = "fVertices P" and d = d3
                        and rest = "appended b4 b5"
                        and rb = "rb\<lparr>rb_data := appended b3 b4 @ appended b4 b5\<rparr>"]
          dist r ctx c4 empty
    by (simp add: b4_def d1_def d2_def d3_def d4_def)
  have s5: "parseBufferLoop T R d4 (rb\<lparr>rb_data := appended b4 b5\<rparr>)
            = parseBufferLoop T R d5 (rb\<lparr>rb_data := []\<rparr>)"
    using image_stage [where wb = b4 and wbe = b5 and W = W and procs = procs and ver = ver
                        and R = R and T = T and xs = "fImages P" and d = d4
                        and rest = "[]"
                        and rb = "rb\<lparr>rb_data := appended b4 b5\<rparr>"]
          dist r ctx c5 empty
    by (simp add: b5_def d1_def d2_def d3_def d4_def d5_def)
  have "parseBufferLoop T R d rb = (d5, rb\<lparr>rb_data := []\<rparr>)"
    using s1 s2 s3 s4 s5 parseBufferLoop_eof [of "rb\<lparr>rb_data := []\<rparr>" T R d5] by simp
  then show "parseBufferLoop T R d rb
           = (set_fImages (fImages P) (set_fVertices (fVertices P) (set_fTextBlobs (fTextBlobs P)
                (set_fPaths (fPaths P) (set_fPaints (fPaints P) d)))),
              rb\<lparr>rb_data := []\<rparr>)"
    by (simp add: d1_def d2_def d3_def d4_def d5_def)
qed

subsection \<open>The sections of the stream\<close>

lemma parseStream_section:
  assumes "tag \<noteq> SK_PICT_EOF_TAG T"
    and "parseStreamTag T R mk d s tag sz p = Inr (d', s')"
  shows "parseStream T R mk d (write32 tag @ write32 sz @ s) p = parseStream T R mk d' s' p"
  using assms by (simp add: parseStream.simps [of T R mk d "write32 tag @ write32 sz @ s" p])

lemma parseStream_eof:
  "parseStream T R mk d (write32 (SK_PICT_EOF_TAG T) @ rest) p = Inr (d, rest)"
  by (simp add: parseStream.simps [of T R mk d "write32 (SK_PICT_EOF_TAG T) @ rest" p])

lemma reader_section:
  assumes "tags_distinct T" and "length ops < 2 ^ 32"
  shows "parseStream T R mk d (write_tag_size (SK_PICT_READER_TAG T) (length ops) @ ops @ rest) p
           = parseStream T R mk (set_fOpData (Some ops) d) rest p"
proof -
  have "parseStreamTag T R mk d (ops @ rest) (SK_PICT_READER_TAG T) (of_nat (length ops)) p
          = Inr (set_fOpData (Some ops) d, rest)"
    using assms(2) by (simp add: parseStreamTag_def unat_of_nat32)
  then show ?thesis
    using parseStream_section [of "SK_PICT_READER_TAG T" T R mk d "ops @ rest"] tag_neq [OF assms(1)]
    by (simp add: write_tag_size_def)
qed

lemma c_str_factory_name: "c_str (factory_name W f) = factory_name W f"
proof (cases "FactoryToName W f")
  case None
  then show ?thesis by (simp add: factory_name_def c_str_def)
next
  case (Some name)
  then show ?thesis by (simp add: factory_name_def c_str_idem)
qed

lemma read_factories_reads_back:
  assumes "\<And>f. f \<in> set F \<Longrightarrow> length (factory_name W f) < 2 ^ 32"
  shows "read_factories R (length F)
           (concat (map (\<lambda>f. writePackedUInt (length (factory_name W f)) @ factory_name W f) F)
            @ rest)
         = Some (map (resolve W R) F, rest)"
  using assms
proof (induction F)
  case Nil
  then show ?case by simp
next
  case (Cons f F)
  have "length (factory_name W f) < 2 ^ 32" using Cons.prems by simp
  then have "readPackedUInt (writePackedUInt (length (factory_name W f)) @ factory_name W f
               @ concat (map (\<lambda>f. writePackedUInt (length (factory_name W f)) @ factory_name W f) F)
               @ rest)
             = Some (length (factory_name W f), factory_name W f
               @ concat (map (\<lambda>f. writePackedUInt (length (factory_name W f)) @ factory_name W f) F)
               @ rest)"
    by (rule readPackedUInt_writePackedUInt)
  moreover have "read_factories R (length F)
           (concat (map (\<lambda>f. writePackedUInt (length (factory_name W f)) @ factory_name W f) F)
            @ rest)
         = Some (map (resolve W R) F, rest)"
    using Cons.prems by (intro Cons.IH) simp
  ultimately show ?case by (simp add: resolve_def c_str_factory_name)
qed

lemma factory_section:
  assumes "tags_distinct T" and "length F < 2 ^ 32"
    and "\<And>f. f \<in> set F \<Longrightarrow> length (factory_name W f) < 2 ^ 32"
  shows "parseStream T R mk d (WriteFactories T W F @ rest) p
           = parseStream T R mk (set_fFactoryPlayback (Some (map (resolve W R) F)) d) rest p"
proof -
  let ?names = "concat (map (\<lambda>f. writePackedUInt (length (factory_name W f))
                                   @ factory_name W f) F)"
  have "parseStreamTag T R mk d (write32 (of_nat (length F)) @ ?names @ rest)
          (SK_PICT_FACTORY_TAG T) (of_nat (compute_chunk_size W F)) p
        = Inr (set_fFactoryPlayback (Some (map (resolve W R) F)) d, rest)"
    using read_factories_reads_back [of F W R rest, OF assms(3)] assms(2) tag_neq [OF assms(1)]
    by (simp add: parseStreamTag_def unat_of_nat32)
  then show ?thesis
    using parseStream_section [of "SK_PICT_FACTORY_TAG T" T R mk d
                                  "write32 (of_nat (length F)) @ ?names @ rest"]
          tag_neq [OF assms(1)]
    by (simp add: WriteFactories_def write_tag_size_def)
qed

text \<open>The typeface's own round trip through the stream.\<close>

definition typeface_ok ::
  "('pn, 'pt, 'bl, 'vx, 'im, 'tf, 'fc, 'pr) writers
     \<Rightarrow> ('pn, 'pt, 'bl, 'vx, 'im, 'dr, 'tf, 'fc) readers \<Rightarrow> 'tf \<Rightarrow> bool" where
  "typeface_ok W R t \<longleftrightarrow>
     (\<forall>rest. Typeface_MakeDeserialize R (Typeface_serialize W t @ rest)
               = (Some t, length (Typeface_serialize W t)))"

lemma read_typefaces_reads_back:
  assumes "\<And>t. t \<in> set S \<Longrightarrow> typeface_ok W R t"
  shows "length tab = i + length S
     \<Longrightarrow> read_typefaces R (length S) i tab (concat (map (Typeface_serialize W) S) @ rest)
         = (take i tab @ map Some S, rest)"
  using assms
proof (induction S arbitrary: i tab)
  case Nil
  then show ?case by simp
next
  case (Cons t S)
  have mk: "Typeface_MakeDeserialize R
              (Typeface_serialize W t @ concat (map (Typeface_serialize W) S) @ rest)
            = (Some t, length (Typeface_serialize W t))"
    using Cons.prems(2) [of t] by (simp add: typeface_ok_def)
  have i: "i < length tab" using Cons.prems(1) by simp
  have "read_typefaces R (length S) (Suc i) (tab[i := Some t])
          (concat (map (Typeface_serialize W) S) @ rest)
        = (take (Suc i) (tab[i := Some t]) @ map Some S, rest)"
    using Cons.prems by (intro Cons.IH) simp_all
  moreover have "take (Suc i) (tab[i := Some t]) = take i tab @ [Some t]"
    using i by (simp add: take_Suc_conv_app_nth)
  ultimately show ?case using mk by simp
qed

lemma typeface_section:
  assumes "tags_distinct T" and "length S < 2 ^ 31"
    and "\<And>t. t \<in> set S \<Longrightarrow> typeface_ok W R t"
  shows "parseStream T R mk d (WriteTypefaces T W S @ rest) p
           = parseStream T R mk (set_fTFPlayback (map Some S) d) rest p"
proof -
  have n: "nat (sint (of_nat (length S) :: u32)) = length S"
    using assms(2) by (simp add: sint_of_nat32)
  have "read_typefaces R (length S) 0 (replicate (length S) None)
          (concat (map (Typeface_serialize W) S) @ rest)
        = (take 0 (replicate (length S) None) @ map Some S, rest)"
    by (rule read_typefaces_reads_back [OF assms(3)]) simp_all
  then have "parseStreamTag T R mk d (concat (map (Typeface_serialize W) S) @ rest)
          (SK_PICT_TYPEFACE_TAG T) (of_nat (length S)) p
        = Inr (set_fTFPlayback (map Some S) d, rest)"
    using tag_neq [OF assms(1)] n by (simp add: parseStreamTag_def Let_def)
  then show ?thesis
    using parseStream_section [of "SK_PICT_TYPEFACE_TAG T" T R mk d
                                  "concat (map (Typeface_serialize W) S) @ rest"]
          tag_neq [OF assms(1)]
    by (simp add: WriteTypefaces_def write_tag_size_def)
qed

lemma read_pictures_reads_back:
  assumes "\<And>b q rest. (b, q) \<in> set bqs \<Longrightarrow> mk (b @ rest) p = Some (q, length b)"
  shows "read_pictures mk (length bqs) p d (concat (map fst bqs) @ rest)
           = Inr (set_fPictures (fPictures d @ map snd bqs) d, rest)"
  using assms
proof (induction bqs arbitrary: d)
  case Nil
  then show ?case by (cases d) simp
next
  case (Cons bq bqs)
  obtain b q where bq: "bq = (b, q)" by (cases bq)
  have "mk (b @ concat (map fst bqs) @ rest) p = Some (q, length b)"
    using Cons.prems [of b q] bq by simp
  moreover have "read_pictures mk (length bqs) p (set_fPictures (fPictures d @ [q]) d)
                   (concat (map fst bqs) @ rest)
                 = Inr (set_fPictures (fPictures (set_fPictures (fPictures d @ [q]) d)
                                        @ map snd bqs)
                          (set_fPictures (fPictures d @ [q]) d), rest)"
    using Cons.prems by (intro Cons.IH) simp
  ultimately show ?case using bq by (cases d) simp
qed

lemma picture_section:
  assumes "tags_distinct T" and "bqs \<noteq> []" and "length bqs < 2 ^ 32"
    and "\<And>b q rest. (b, q) \<in> set bqs \<Longrightarrow> mk (b @ rest) (pass_ptr p d) = Some (q, length b)"
  shows "parseStream T R mk d
           (write_tag_size (SK_PICT_PICTURE_TAG T) (length bqs) @ concat (map fst bqs) @ rest) p
         = parseStream T R mk (set_fPictures (fPictures d @ map snd bqs) d) rest p"
proof -
  have "parseStreamTag T R mk d (concat (map fst bqs) @ rest) (SK_PICT_PICTURE_TAG T)
          (of_nat (length bqs)) p
        = Inr (set_fPictures (fPictures d @ map snd bqs) d, rest)"
    using read_pictures_reads_back [of bqs mk "pass_ptr p d" d rest] assms(3,4)
          tag_neq [OF assms(1)]
    by (simp add: parseStreamTag_def unat_of_nat32)
  then show ?thesis
    using parseStream_section [of "SK_PICT_PICTURE_TAG T" T R mk d
                                  "concat (map fst bqs) @ rest"]
          tag_neq [OF assms(1)]
    by (simp add: write_tag_size_def)
qed

lemma buffer_section:
  assumes dist: "tags_distinct T" and ok: "resources_ok W R procs ver P"
    and wbe: "wbe = flattenToBuffer T W procs P \<lparr>wb_bytes = [], fFactorySet = [], fTFSet = S0\<rparr>"
    and len: "length (wb_bytes wbe) < 2 ^ 32"
    and inst: "setup_buffer d (wb_bytes wbe) p
                  = Inr \<lparr>rb_data = wb_bytes wbe, fError = False, rb_version = ver,
                         fFactoryArray = map (resolve W R) (fFactorySet wbe),
                         fTFArray = map Some S\<rparr>"
    and tabs: "prefix (fTFSet wbe) S" "length S < 2 ^ 31" "length (fFactorySet wbe) < 2 ^ 32"
    and empty: "fPaints d = []" "fPaths d = []" "fTextBlobs d = []" "fVertices d = []"
      "fImages d = []"
  shows "parseStream T R mk d
           (write_tag_size (SK_PICT_BUFFER_SIZE_TAG T) (length (wb_bytes wbe)) @ wb_bytes wbe
            @ rest) p
         = parseStream T R mk
             (set_fImages (fImages P) (set_fVertices (fVertices P) (set_fTextBlobs (fTextBlobs P)
                (set_fPaths (fPaths P) (set_fPaints (fPaints P) d))))) rest p"
proof -
  let ?rb = "\<lparr>rb_data = wb_bytes wbe, fError = False, rb_version = ver,
              fFactoryArray = map (resolve W R) (fFactorySet wbe), fTFArray = map Some S\<rparr>"
  let ?d' = "set_fImages (fImages P) (set_fVertices (fVertices P) (set_fTextBlobs (fTextBlobs P)
                (set_fPaths (fPaths P) (set_fPaints (fPaints P) d))))"
  have ctx: "buffer_ctx ver ?rb" using tabs by (simp add: buffer_ctx_def)
  have compat: "compat W R (fFactorySet wbe) (fTFSet wbe) ?rb"
    using tabs(1) by (simp add: compat_def map_mono_prefix)
  have data: "rb_data ?rb = appended \<lparr>wb_bytes = [], fFactorySet = [], fTFSet = S0\<rparr> wbe"
    by (simp add: appended_def)
  have loop: "parseBufferLoop T R d ?rb = (?d', ?rb\<lparr>rb_data := []\<rparr>)"
    by (rule flattenToBuffer_reads_back(2) [OF dist ok ctx wbe compat data empty])
  have "parseStreamTag T R mk d (wb_bytes wbe @ rest) (SK_PICT_BUFFER_SIZE_TAG T)
          (of_nat (length (wb_bytes wbe))) p = Inr (?d', rest)"
    using tag_neq [OF dist] len inst loop
    by (simp add: parseStreamTag_def unat_of_nat32 isValid_def)
  then show ?thesis
    using parseStream_section [of "SK_PICT_BUFFER_SIZE_TAG T" T R mk d "wb_bytes wbe @ rest"]
          tag_neq [OF dist]
    by (simp add: write_tag_size_def)
qed

subsection \<open>The typefaces a picture records\<close>

text \<open>The typeface references of the resources of one picture, in the order
  \<^verbatim>\<open>flattenToBuffer\<close> meets them.\<close>

definition node_tf_refs ::
  "('pn, 'pt, 'bl, 'vx, 'im, 'tf, 'fc, 'pr) writers \<Rightarrow> 'pr
     \<Rightarrow> ('pn, 'pt, 'bl, 'vx, 'im, 'dr, 'tf, 'fc) SkPictureData \<Rightarrow> 'tf list" where
  "node_tf_refs W procs d =
     concat (map (\<lambda>p. refs_tf (writePaint W procs p)) (fPaints d))
     @ concat (map (\<lambda>p. refs_tf (writePath W procs p)) (fPaths d))
     @ concat (map (\<lambda>b. refs_tf (TextBlob_flatten W procs b)) (fTextBlobs d))
     @ concat (map (\<lambda>i. refs_tf (writeImage W procs i)) (fImages d))"

text \<open>The typeface references \<^verbatim>\<open>serialize\<close> meets, in order: the picture's own, those of
  the pass that drops the bytes, those of the pass that writes the sub-pictures.\<close>

fun added_list ::
  "('pn, 'pt, 'bl, 'vx, 'im, 'tf, 'fc, 'pr) writers \<Rightarrow> 'pr
     \<Rightarrow> ('pn, 'pt, 'bl, 'vx, 'im, 'dr, 'tf, 'fc) SkPictureData \<Rightarrow> 'tf list" where
  "added_list W procs (SkPictureData opData paints paths blobs verts images draws pictures info
     fp tfp) =
     node_tf_refs W procs
       (SkPictureData opData paints paths blobs verts images draws pictures info fp tfp)
     @ concat (map (added_list W (default_procs W)) pictures)
     @ concat (map (added_list W procs) pictures)"

text \<open>Every picture of the tree has its opcode bytes.\<close>

fun has_ops :: "('pn, 'pt, 'bl, 'vx, 'im, 'dr, 'tf, 'fc) SkPictureData \<Rightarrow> bool" where
  "has_ops (SkPictureData opData paints paths blobs verts images draws pictures info fp tfp)
     \<longleftrightarrow> opData \<noteq> None \<and> (\<forall>q \<in> set pictures. has_ops q)"

lemma fTFSet_write_flat: "fTFSet (write_flat x wb) = record_all (fTFSet wb) (refs_tf x)"
  by (simp add: write_flat_def Let_def)

lemma fTFSet_fold_flat:
  "fTFSet (fold (\<lambda>p. write_flat (w p)) ps wb)
     = record_all (fTFSet wb) (concat (map (\<lambda>p. refs_tf (w p)) ps))"
  by (induction ps arbitrary: wb) (simp_all add: fTFSet_write_flat record_all_append)

lemma fTFSet_fold_data:
  "fTFSet (fold (\<lambda>v. writeDataAsByteArray (e v)) vs wb) = fTFSet wb"
  by (induction vs arbitrary: wb) simp_all

lemma fTFSet_flattenToBuffer:
  "fTFSet (flattenToBuffer T W procs d wb) = record_all (fTFSet wb) (node_tf_refs W procs d)"
  by (simp add: flattenToBuffer_def Let_def node_tf_refs_def record_all_append
                fTFSet_fold_flat fTFSet_fold_data)

lemma serialize_typefaces:
  fixes P :: "('pn, 'pt, 'bl, 'vx, 'im, 'dr, 'tf, 'fc) SkPictureData"
    and qs :: "('pn, 'pt, 'bl, 'vx, 'im, 'dr, 'tf, 'fc) SkPictureData list"
  shows "has_ops P \<Longrightarrow>
     \<exists>b. serialize T W procs topSet P
           = Inr (b, record_all (case topSet of None \<Rightarrow> [] | Some ts \<Rightarrow> ts)
                       (added_list W procs P))"
    and "\<forall>q \<in> set qs. has_ops q \<Longrightarrow>
     \<exists>b. serialize_all T W procs S qs
           = Inr (b, record_all S (concat (map (added_list W procs) qs)))"
proof (induction T W procs topSet P and T W procs S qs rule: serialize_serialize_all.induct)
  case (1 T W procs topLevelTypeFaceSet opData paints paths blobs verts images draws pictures
          info fp tfp)
  let ?P = "SkPictureData opData paints paths blobs verts images draws pictures info fp tfp"
  let ?S0 = "case topLevelTypeFaceSet of None \<Rightarrow> [] | Some ts \<Rightarrow> ts"
  let ?buffer = "flattenToBuffer T W procs ?P \<lparr>wb_bytes = [], fFactorySet = [], fTFSet = ?S0\<rparr>"
  let ?S1 = "record_all ?S0 (node_tf_refs W procs ?P)"
  let ?S2 = "record_all ?S1 (concat (map (added_list W (default_procs W)) pictures))"
  obtain ops where ops: "opData = Some ops" using "1.prems" by auto
  have subs: "\<forall>q \<in> set pictures. has_ops q" using "1.prems" by simp
  have S1: "fTFSet ?buffer = ?S1" by (simp add: fTFSet_flattenToBuffer)
  obtain dn where dn: "serialize_all T W (default_procs W) (fTFSet ?buffer) pictures
                         = Inr (dn, ?S2)"
    using "1.IH"(1) [OF ops refl refl subs] S1 by auto
  obtain sb where sb: "serialize_all T W procs ?S2 pictures
      = Inr (sb, record_all ?S2 (concat (map (added_list W procs) pictures)))"
    using "1.IH"(2) [OF ops refl refl dn refl subs] by auto
  show ?case using ops dn sb by (simp add: record_all_append Let_def)
next
  case (2 T W procs typefaceSet)
  then show ?case by simp
next
  case (3 T W procs typefaceSet pic pics)
  obtain b where b: "serialize T W procs (Some typefaceSet) pic
                       = Inr (b, record_all typefaceSet (added_list W procs pic))"
    using "3.IH"(1) "3.prems" by auto
  obtain b' where "serialize_all T W procs (record_all typefaceSet (added_list W procs pic)) pics
      = Inr (b', record_all (record_all typefaceSet (added_list W procs pic))
                   (concat (map (added_list W procs) pics)))"
    using "3.IH"(2) [OF b refl] "3.prems" by auto
  then show ?case using b by (simp add: record_all_append)
qed

lemma serialize_all_unchanged:
  assumes "\<And>q. q \<in> set qs \<Longrightarrow> serialize T W procs (Some S) q = Inr (f q, S)"
  shows "serialize_all T W procs S qs = Inr (concat (map f qs), S)"
  using assms by (induction qs) simp_all

subsection \<open>One picture in the stream\<close>

text \<open>
  What one picture data needs so that its sections can be read back, when its structured
  buffer starts from the typeface recorder \<open>S\<close>: its opcode bytes are there, the sizes
  and counts written as 32-bit words fit, and its resources are well-formed.
\<close>

definition node_ok ::
  "pict_tags \<Rightarrow> ('pn, 'pt, 'bl, 'vx, 'im, 'tf, 'fc, 'pr) writers
     \<Rightarrow> ('pn, 'pt, 'bl, 'vx, 'im, 'dr, 'tf, 'fc) readers \<Rightarrow> 'pr \<Rightarrow> u32 \<Rightarrow> 'tf list
     \<Rightarrow> ('pn, 'pt, 'bl, 'vx, 'im, 'dr, 'tf, 'fc) SkPictureData \<Rightarrow> bool" where
  "node_ok T W R procs ver S d \<longleftrightarrow>
     (case fOpData d of None \<Rightarrow> False | Some ops \<Rightarrow> length ops < 2 ^ 32)
     \<and> resources_ok W R procs ver d
     \<and> length (fPictures d) < 2 ^ 32
     \<and> (let wbe = flattenToBuffer T W procs d \<lparr>wb_bytes = [], fFactorySet = [], fTFSet = S\<rparr>
        in length (wb_bytes wbe) < 2 ^ 32 \<and> length (fFactorySet wbe) < 2 ^ 32
           \<and> (\<forall>f\<in>set (fFactorySet wbe). length (factory_name W f) < 2 ^ 32))"

lemma node_round_trip:
  fixes pics :: "('pn, 'pt, 'bl, 'vx, 'im, 'dr, 'tf, 'fc) SkPictureData list"
  assumes P: "P = SkPictureData opData paints paths blobs verts images draws pics info0 fp tfp"
    and dist: "tags_distinct T"
    and node: "node_ok T W R procs (fVersion info) S0 P"
    and wbe: "wbe = flattenToBuffer T W procs P \<lparr>wb_bytes = [], fFactorySet = [], fTFSet = S0\<rparr>"
    and devnull: "serialize_all T W (default_procs W) (fTFSet wbe) pics = Inr (dn, S2)"
    and pre: "prefix (fTFSet wbe) S2"
    and len: "length S2 < 2 ^ 31"
    and subs: "\<And>q. q \<in> set pics \<Longrightarrow> serialize T W procs (Some S2) q = Inr (f q, S2)"
    and reads: "\<And>q rest. q \<in> set pics
                 \<Longrightarrow> mk (f q @ rest) (Extern (map Some S2)) = Some (g q, length (f q))"
    and top: "topSet = None \<and> S0 = [] \<and> p = OwnTable \<and> (\<forall>t\<in>set S2. typeface_ok W R t)
              \<or> topSet = Some S2 \<and> S0 = S2 \<and> p = Extern (map Some S2)"
  shows "\<exists>bytes. serialize T W procs topSet P = Inr (bytes, S2)
           \<and> (\<forall>rest. parseStream T R mk (new_SkPictureData info) (bytes @ rest) p
                 = Inr (SkPictureData opData paints paths blobs verts images [] (map g pics) info
                          (Some (map (resolve W R) (fFactorySet wbe)))
                          (if topSet = None then map Some S2 else []), rest))"
proof -
  obtain ops where ops: "opData = Some ops" and ops_len: "length ops < 2 ^ 32"
    using node by (auto simp: node_ok_def P split: option.splits)
  have ok: "resources_ok W R procs (fVersion info) P" using node by (simp add: node_ok_def)
  have sizes: "length (wb_bytes wbe) < 2 ^ 32" "length (fFactorySet wbe) < 2 ^ 32"
    "\<And>f. f \<in> set (fFactorySet wbe) \<Longrightarrow> length (factory_name W f) < 2 ^ 32"
    using node by (simp_all add: node_ok_def wbe Let_def)
  have pics_len: "length pics < 2 ^ 32" using node by (simp add: node_ok_def P)
  have S0: "(case topSet of None \<Rightarrow> [] | Some ts \<Rightarrow> ts) = S0" using top by auto
  let ?FA = "map (resolve W R) (fFactorySet wbe)"
  let ?tab = "if topSet = None then map Some S2 else []"
  let ?tail = "(if pics \<noteq> []
                then write_tag_size (SK_PICT_PICTURE_TAG T) (length pics) @ concat (map f pics)
                else [])
               @ write32 (SK_PICT_EOF_TAG T)"
  let ?buf = "write_tag_size (SK_PICT_BUFFER_SIZE_TAG T) (length (wb_bytes wbe)) @ wb_bytes wbe"
  let ?tfs = "if topSet = None then WriteTypefaces T W S2 else []"
  let ?bytes = "write_tag_size (SK_PICT_READER_TAG T) (length ops) @ ops
                @ WriteFactories T W (fFactorySet wbe) @ ?tfs @ ?buf @ ?tail"
  let ?d1 = "SkPictureData (Some ops) [] [] [] [] [] [] [] info None []"
  let ?d2 = "SkPictureData (Some ops) [] [] [] [] [] [] [] info (Some ?FA) []"
  let ?d3 = "SkPictureData (Some ops) [] [] [] [] [] [] [] info (Some ?FA) ?tab"
  let ?d4 = "SkPictureData (Some ops) paints paths blobs verts images [] [] info (Some ?FA) ?tab"
  let ?d5 = "SkPictureData (Some ops) paints paths blobs verts images [] (map g pics) info
               (Some ?FA) ?tab"
  have all: "serialize_all T W procs S2 pics = Inr (concat (map f pics), S2)"
    by (rule serialize_all_unchanged) (rule subs)
  have wbe': "flattenToBuffer T W procs
                (SkPictureData (Some ops) paints paths blobs verts images draws pics info0 fp tfp)
                \<lparr>wb_bytes = [], fFactorySet = [], fTFSet = S0\<rparr> = wbe"
    using wbe P ops by simp
  have ser: "serialize T W procs topSet P = Inr (?bytes, S2)"
    using devnull all by (simp add: P ops S0 wbe' Let_def)
  have decode: "parseStream T R mk (new_SkPictureData info) (?bytes @ rest) p = Inr (?d5, rest)"
    for rest
  proof -
    have s1: "parseStream T R mk (new_SkPictureData info) (?bytes @ rest) p
                = parseStream T R mk ?d1
                    (WriteFactories T W (fFactorySet wbe) @ ?tfs @ ?buf @ ?tail @ rest) p"
      using reader_section [OF dist ops_len, of R mk "new_SkPictureData info"
                               "WriteFactories T W (fFactorySet wbe) @ ?tfs @ ?buf @ ?tail @ rest"
                               p]
      by (simp add: new_SkPictureData_def)
    have s2: "parseStream T R mk ?d1
                (WriteFactories T W (fFactorySet wbe) @ ?tfs @ ?buf @ ?tail @ rest) p
              = parseStream T R mk ?d2 (?tfs @ ?buf @ ?tail @ rest) p"
      using factory_section [OF dist sizes(2) sizes(3), of R mk ?d1
                                "?tfs @ ?buf @ ?tail @ rest" p]
      by simp
    have s3: "parseStream T R mk ?d2 (?tfs @ ?buf @ ?tail @ rest) p
              = parseStream T R mk ?d3 (?buf @ ?tail @ rest) p"
    proof (cases "topSet = None")
      case True
      then have "\<And>t. t \<in> set S2 \<Longrightarrow> typeface_ok W R t" using top by simp
      from typeface_section [OF dist len this, of mk ?d2 "?buf @ ?tail @ rest" p]
      show ?thesis using True by simp
    next
      case False
      then show ?thesis by (simp del: not_None_eq)
    qed
    have inst: "setup_buffer ?d3 (wb_bytes wbe) p
                  = Inr \<lparr>rb_data = wb_bytes wbe, fError = False, rb_version = fVersion info,
                         fFactoryArray = ?FA, fTFArray = map Some S2\<rparr>"
      using top by (auto simp: setup_buffer_def new_SkReadBuffer_def Let_def)
    have s4: "parseStream T R mk ?d3 (?buf @ ?tail @ rest) p
              = parseStream T R mk ?d4 (?tail @ rest) p"
      using buffer_section [OF dist ok wbe sizes(1) inst pre len sizes(2), of mk "?tail @ rest"]
      by (simp add: P)
    have s5: "parseStream T R mk ?d4 (?tail @ rest) p
              = parseStream T R mk ?d5 (write32 (SK_PICT_EOF_TAG T) @ rest) p"
    proof (cases "pics = []")
      case True
      then show ?thesis by simp
    next
      case False
      let ?bqs = "map (\<lambda>q. (f q, g q)) pics"
      have ptr: "pass_ptr p ?d4 = Extern (map Some S2)"
        using top by (auto simp: pass_ptr_def)
      have each: "mk (b @ rest') (pass_ptr p ?d4) = Some (q, length b)"
        if "(b, q) \<in> set ?bqs" for b q rest'
      proof -
        from that obtain qa where qa: "qa \<in> set pics" "b = f qa" "q = g qa" by auto
        show ?thesis unfolding ptr qa(2,3) by (rule reads [OF qa(1)])
      qed
      have ne: "?bqs \<noteq> []" using False by simp
      have ln: "length ?bqs < 2 ^ 32" using pics_len by simp
      have "parseStream T R mk ?d4
              (write_tag_size (SK_PICT_PICTURE_TAG T) (length ?bqs) @ concat (map fst ?bqs)
               @ write32 (SK_PICT_EOF_TAG T) @ rest) p
            = parseStream T R mk (set_fPictures (fPictures ?d4 @ map snd ?bqs) ?d4)
                (write32 (SK_PICT_EOF_TAG T) @ rest) p"
        by (rule picture_section [where mk = mk and p = p and d = ?d4 and bqs = ?bqs,
                                  OF dist ne ln each])
      then show ?thesis using False by (simp add: comp_def)
    qed
    show ?thesis
      unfolding s1 s2 s3 s4 s5 by (rule parseStream_eof)
  qed
  show ?thesis
    using ser decode ops by (intro exI [of _ ?bytes]) simp
qed

subsection \<open>The tree of pictures\<close>

text \<open>What a picture data holds for playback: its opcode bytes, the resources the
  structured buffer carries, and the same of its sub-pictures.\<close>

datatype ('pn, 'pt, 'bl, 'vx, 'im) contents =
  Contents "byte list option" "'pn list" "'pt list" "'bl list" "'vx list" "'im list"
    "('pn, 'pt, 'bl, 'vx, 'im) contents list"

fun contents_of ::
  "('pn, 'pt, 'bl, 'vx, 'im, 'dr, 'tf, 'fc) SkPictureData \<Rightarrow> ('pn, 'pt, 'bl, 'vx, 'im) contents"
  where
  "contents_of (SkPictureData opData paints paths blobs verts images draws pictures info fp tfp)
     = Contents opData paints paths blobs verts images (map contents_of pictures)"

text \<open>Every picture of the tree is well-formed, each starting its structured buffer from
  the typeface recorder \<open>S\<close>.\<close>

fun tree_ok ::
  "pict_tags \<Rightarrow> ('pn, 'pt, 'bl, 'vx, 'im, 'tf, 'fc, 'pr) writers
     \<Rightarrow> ('pn, 'pt, 'bl, 'vx, 'im, 'dr, 'tf, 'fc) readers \<Rightarrow> 'pr \<Rightarrow> u32 \<Rightarrow> 'tf list
     \<Rightarrow> ('pn, 'pt, 'bl, 'vx, 'im, 'dr, 'tf, 'fc) SkPictureData \<Rightarrow> bool" where
  "tree_ok T W R procs ver S
     (SkPictureData opData paints paths blobs verts images draws pictures info fp tfp) \<longleftrightarrow>
     node_ok T W R procs ver S
       (SkPictureData opData paints paths blobs verts images draws pictures info fp tfp)
     \<and> (\<forall>q \<in> set pictures. tree_ok T W R procs ver S q)"

text \<open>
  A top-level picture is well-formed. \<open>S2\<close> is the typeface recorder as the pass that
  drops the bytes leaves it, which is what the TYPEFACE section holds: it has at most
  \<open>2\<^sup>3\<^sup>1 - 1\<close> entries, each typeface makes its own round trip through the stream, and
  the pass that writes the sub-pictures, under the callbacks \<open>procs\<close>, meets no typeface
  that is not in it.
\<close>

definition well_formed ::
  "pict_tags \<Rightarrow> ('pn, 'pt, 'bl, 'vx, 'im, 'tf, 'fc, 'pr) writers
     \<Rightarrow> ('pn, 'pt, 'bl, 'vx, 'im, 'dr, 'tf, 'fc) readers \<Rightarrow> 'pr
     \<Rightarrow> ('pn, 'pt, 'bl, 'vx, 'im, 'dr, 'tf, 'fc) SkPictureData \<Rightarrow> bool" where
  "well_formed T W R procs P \<longleftrightarrow>
     (let ver = fVersion (fInfo P);
          S1 = record_all [] (node_tf_refs W procs P);
          S2 = record_all S1 (concat (map (added_list W (default_procs W)) (fPictures P)))
      in node_ok T W R procs ver [] P
         \<and> (\<forall>q \<in> set (fPictures P).
               tree_ok T W R procs ver S2 q \<and> set (added_list W procs q) \<subseteq> set S2)
         \<and> length S2 < 2 ^ 31
         \<and> (\<forall>t \<in> set S2. typeface_ok W R t))"

lemma tree_ok_has_ops: "tree_ok T W R procs ver S q \<Longrightarrow> has_ops q"
  by (induction q) (auto simp: node_ok_def split: option.splits)

lemma sub_picture_round_trip:
  fixes q :: "('pn, 'pt, 'bl, 'vx, 'im, 'dr, 'tf, 'fc) SkPictureData"
  assumes dist: "tags_distinct T" and len: "length S < 2 ^ 31"
  shows "tree_ok T W R procs (fVersion info) S q \<Longrightarrow> set (added_list W procs q) \<subseteq> set S
    \<Longrightarrow> \<exists>bq. serialize T W procs (Some S) q = Inr (fst bq, S)
             \<and> (\<forall>rest. MakeFromStream T R info (fst bq @ rest) (Extern (map Some S))
                          = Some (snd bq, length (fst bq)))
             \<and> contents_of (snd bq) = contents_of q \<and> fDrawables (snd bq) = []"
proof (induction q)
  case (SkPictureData opData paints paths blobs verts images draws pics info0 fp tfp)
  let ?P = "SkPictureData opData paints paths blobs verts images draws pics info0 fp tfp"
  let ?wbe = "flattenToBuffer T W procs ?P \<lparr>wb_bytes = [], fFactorySet = [], fTFSet = S\<rparr>"
  have node: "node_ok T W R procs (fVersion info) S ?P"
    and trees: "\<And>x. x \<in> set pics \<Longrightarrow> tree_ok T W R procs (fVersion info) S x"
    using SkPictureData.prems(1) by simp_all
  have own: "set (node_tf_refs W procs ?P) \<subseteq> set S"
    and dflt: "set (concat (map (added_list W (default_procs W)) pics)) \<subseteq> set S"
    and real: "\<And>x. x \<in> set pics \<Longrightarrow> set (added_list W procs x) \<subseteq> set S"
    using SkPictureData.prems(2) by auto
  have "\<forall>x \<in> set pics. \<exists>bq. serialize T W procs (Some S) x = Inr (fst bq, S)
             \<and> (\<forall>rest. MakeFromStream T R info (fst bq @ rest) (Extern (map Some S))
                          = Some (snd bq, length (fst bq)))
             \<and> contents_of (snd bq) = contents_of x \<and> fDrawables (snd bq) = []"
    using SkPictureData.IH trees real by blast
  from bchoice [OF this] obtain h where
    h: "\<And>x. x \<in> set pics \<Longrightarrow> serialize T W procs (Some S) x = Inr (fst (h x), S)"
       "\<And>x rest. x \<in> set pics
          \<Longrightarrow> MakeFromStream T R info (fst (h x) @ rest) (Extern (map Some S))
              = Some (snd (h x), length (fst (h x)))"
       "\<And>x. x \<in> set pics \<Longrightarrow> contents_of (snd (h x)) = contents_of x"
    by blast
  have S1: "fTFSet ?wbe = S"
    using own by (simp add: fTFSet_flattenToBuffer record_all_known)
  have "\<forall>x \<in> set pics. has_ops x"
    by (intro ballI) (rule tree_ok_has_ops [OF trees])
  from serialize_typefaces(2) [OF this, of T W "default_procs W" S]
  obtain dn where dn: "serialize_all T W (default_procs W) (fTFSet ?wbe) pics = Inr (dn, S)"
    using dflt by (auto simp: S1 record_all_known)
  have pre: "prefix (fTFSet ?wbe) S" by (simp add: S1)
  have "\<exists>bytes. serialize T W procs (Some S) ?P = Inr (bytes, S)
           \<and> (\<forall>rest. parseStream T R (MakeFromStream T R info) (new_SkPictureData info)
                       (bytes @ rest) (Extern (map Some S))
                 = Inr (SkPictureData opData paints paths blobs verts images []
                          (map (\<lambda>x. snd (h x)) pics) info
                          (Some (map (resolve W R) (fFactorySet ?wbe)))
                          (if Some S = None then map Some S else []), rest))"
    by (rule node_round_trip [where f = "\<lambda>x. fst (h x)" and g = "\<lambda>x. snd (h x)"
                                and mk = "MakeFromStream T R info" and topSet = "Some S"
                                and p = "Extern (map Some S)",
                              OF refl dist node refl dn pre len h(1) h(2)]) simp_all
  then obtain bytes where
    ser: "serialize T W procs (Some S) ?P = Inr (bytes, S)" and
    dec: "\<And>rest. parseStream T R (MakeFromStream T R info) (new_SkPictureData info)
                       (bytes @ rest) (Extern (map Some S))
                 = Inr (SkPictureData opData paints paths blobs verts images []
                          (map (\<lambda>x. snd (h x)) pics) info
                          (Some (map (resolve W R) (fFactorySet ?wbe))) [], rest)"
    by auto
  let ?P' = "SkPictureData opData paints paths blobs verts images []
               (map (\<lambda>x. snd (h x)) pics) info
               (Some (map (resolve W R) (fFactorySet ?wbe))) []"
  have mk: "MakeFromStream T R info (bytes @ rest) (Extern (map Some S))
              = Some (?P', length bytes)" for rest
    by (simp add: MakeFromStream.simps [of T R info "bytes @ rest"] CreateFromStream_def dec)
  have "contents_of ?P' = contents_of ?P" using h(3) by simp
  then show ?case
    using ser mk by (intro exI [of _ "(bytes, ?P')"]) simp
qed

subsection \<open>The example codecs make their round trips\<close>

lemma index_of_less: "x \<in> set xs \<Longrightarrow> index_of x xs < length xs"
  by (induction xs) auto

lemma nth_index_of: "x \<in> set xs \<Longrightarrow> xs ! index_of x xs = x"
  by (induction xs) auto

lemma round_trips_write_tf_index:
  "round_trips W R ver (write_tf_index t) read_tf_index (\<lambda>n. (t, True, n))"
  unfolding round_trips_def
proof (intro allI impI, elim conjE)
  fix rb :: "(byte, byte) SkReadBuffer" and fs ts rest
  let ?S = "record_all ts (refs_tf (write_tf_index t))"
  let ?F = "record_all fs (refs_fc (write_tf_index t))"
  assume ctx: "buffer_ctx ver rb"
    and compat: "compat W R ?F ?S rb"
    and data: "rb_data rb = flat_bytes (write_tf_index t) ?F ?S @ rest"
  have mem: "t \<in> set ?S" by (simp add: set_record_all write_tf_index_def)
  have idx: "index_of t ?S < length ?S" by (rule index_of_less [OF mem])
  obtain more where tab: "fTFArray rb = map Some ?S @ more"
    using compat by (auto simp: compat_def prefix_def)
  have "length ?S \<le> length (fTFArray rb)" by (simp add: tab)
  then have small: "index_of t ?S < 2 ^ 32" and inside: "index_of t ?S < length (fTFArray rb)"
    using idx ctx by (simp_all add: buffer_ctx_def)
  have entry: "fTFArray rb ! index_of t ?S = Some t"
    using idx nth_index_of [OF mem] by (simp add: tab nth_append)
  have bytes: "flat_bytes (write_tf_index t) ?F ?S = write32 (of_nat (index_of t ?S))"
    by (simp add: write_tf_index_def)
  show "read_tf_index rb = (t, True, length (flat_bytes (write_tf_index t) ?F ?S))"
    using inside entry unat_of_nat32 [OF small]
    by (simp add: read_tf_index_def data bytes)
qed

lemma round_trips_write_byte:
  "round_trips W R ver (write_byte x) read_byte (\<lambda>n. (Some x, n))"
  by (simp add: round_trips_def write_byte_def read_byte_def)

lemma typeface_ok_example: "typeface_ok ex_writers ex_readers t"
  by (simp add: typeface_ok_def ex_writers_def ex_readers_def)

lemma resources_ok_example:
  assumes "length (fPaints d) < 2 ^ 31" "length (fPaths d) < 2 ^ 31"
    "length (fTextBlobs d) < 2 ^ 31" "length (fVertices d) < 2 ^ 31" "length (fImages d) < 2 ^ 31"
  shows "resources_ok ex_writers ex_readers procs ver d"
proof -
  have w: "writePaint ex_writers procs = write_tf_index"
    "writePath ex_writers procs = write_tf_index"
    "TextBlob_flatten ex_writers procs = write_byte"
    "writeImage ex_writers procs = write_byte"
    "Vertices_encode ex_writers = (\<lambda>v. [v])"
    by (simp_all add: ex_writers_def)
  have r: "readPaint ex_readers = read_tf_index" "readPath ex_readers = read_tf_index"
    "TextBlob_MakeFromBuffer ex_readers = read_byte" "readImage ex_readers = read_byte"
    "Vertices_Decode ex_readers = (\<lambda>bs. case bs of [x] \<Rightarrow> Some x | _ \<Rightarrow> None)"
    by (simp_all add: ex_readers_def)
  show ?thesis
    unfolding resources_ok_def w r
    using assms by (simp add: round_trips_write_tf_index round_trips_write_byte)
qed

text \<open>A picture with one resource of each kind and a sub-picture: the paint stands for
  the typeface 5, the path of the sub-picture for the typeface 2.\<close>

definition ex_sub_picture :: "(byte, byte, byte, byte, byte, byte, byte, byte) SkPictureData"
  where
  "ex_sub_picture = SkPictureData (Some [9]) [] [2] [] [] [] [] [] v50 None []"

definition ex_picture :: "(byte, byte, byte, byte, byte, byte, byte, byte) SkPictureData" where
  "ex_picture = SkPictureData (Some [1, 2, 3]) [5] [] [6] [8] [4] [] [ex_sub_picture] v50 None []"

text \<open>A picture that holds a drawable and nothing else.\<close>

definition one_drawable :: "(byte, byte, byte, byte, byte, byte, byte, byte) SkPictureData" where
  "one_drawable = SkPictureData (Some []) [] [] [] [] [] [7] [] v50 None []"

lemma flat_example [simp]:
  "refs_tf (write_tf_index t) = [t]" "refs_fc (write_tf_index t) = []"
  "refs_tf (write_byte x) = []" "refs_fc (write_byte x) = []"
  "length (flat_bytes (write_tf_index t) fs ts) = 4" "length (flat_bytes (write_byte x) fs ts) = 1"
  by (simp_all add: write_tf_index_def write_byte_def)

lemma writers_example [simp]:
  "writePaint ex_writers procs = write_tf_index"
  "writePath ex_writers procs = write_tf_index"
  "TextBlob_flatten ex_writers procs = write_byte"
  "writeImage ex_writers procs = write_byte"
  "Vertices_encode ex_writers v = [v]"
  "default_procs ex_writers = ()"
  by (simp_all add: ex_writers_def)

lemma well_formed_example: "well_formed four_cc_tags ex_writers ex_readers () ex_picture"
proof -
  have S2: "record_all (record_all [] (node_tf_refs ex_writers () ex_picture))
              (concat (map (added_list ex_writers (default_procs ex_writers))
                         (fPictures ex_picture)))
            = [5, 2]"
    by (simp add: ex_picture_def ex_sub_picture_def node_tf_refs_def record_all_def
                  recorder_add_def)
  have rok: "resources_ok ex_writers ex_readers () ver ex_picture"
    "resources_ok ex_writers ex_readers () ver ex_sub_picture" for ver
    by (rule resources_ok_example; simp add: ex_picture_def ex_sub_picture_def)+
  have top: "node_ok four_cc_tags ex_writers ex_readers () (fVersion (fInfo ex_picture)) []
               ex_picture"
    unfolding node_ok_def
    by (simp add: rok)
       (simp add: ex_picture_def flattenToBuffer_def Let_def write_flat_def
                  write_tag_size_buffer_def writeUInt_def writeDataAsByteArray_def SkAlign4_def
                  record_all_def recorder_add_def)
  have sub: "node_ok four_cc_tags ex_writers ex_readers () (fVersion (fInfo ex_picture)) [5, 2]
               ex_sub_picture"
    unfolding node_ok_def
    by (simp add: rok)
       (simp add: ex_sub_picture_def flattenToBuffer_def Let_def write_flat_def
                  write_tag_size_buffer_def writeUInt_def writeDataAsByteArray_def SkAlign4_def
                  record_all_def recorder_add_def)
  have tree: "tree_ok four_cc_tags ex_writers ex_readers () (fVersion (fInfo ex_picture)) [5, 2]
                ex_sub_picture"
    using sub by (simp add: ex_sub_picture_def)
  have known: "set (added_list ex_writers () ex_sub_picture) \<subseteq> set [5, 2]"
    by (simp add: ex_sub_picture_def node_tf_refs_def)
  have pics: "fPictures ex_picture = [ex_sub_picture]" by (simp add: ex_picture_def)
  show ?thesis
    unfolding well_formed_def Let_def S2
    using top tree known by (simp add: pics typeface_ok_example)
qed

section \<open>The round trip through the stream\<close>

lemma serialize_one_drawable:
  "serialize four_cc_tags ex_writers () None one_drawable
     = Inr (write32 (SK_PICT_READER_TAG four_cc_tags) @ write32 0
            @ write32 (SK_PICT_FACTORY_TAG four_cc_tags) @ write32 4 @ write32 0
            @ write32 (SK_PICT_TYPEFACE_TAG four_cc_tags) @ write32 0
            @ write32 (SK_PICT_BUFFER_SIZE_TAG four_cc_tags) @ write32 0
            @ write32 (SK_PICT_EOF_TAG four_cc_tags), [])"
  by (simp add: one_drawable_def Let_def flattenToBuffer_def WriteFactories_def
                compute_chunk_size_def WriteTypefaces_def write_tag_size_def)

lemma five_sections_decode:
  assumes "tags_distinct T"
  shows "CreateFromStream T R mk
          (write32 (SK_PICT_READER_TAG T) @ write32 0
           @ write32 (SK_PICT_FACTORY_TAG T) @ write32 4 @ write32 0
           @ write32 (SK_PICT_TYPEFACE_TAG T) @ write32 0
           @ write32 (SK_PICT_BUFFER_SIZE_TAG T) @ write32 0
           @ write32 (SK_PICT_EOF_TAG T)) info NullPtr
        = Inr (SkPictureData (Some []) [] [] [] [] [] [] [] info (Some []) [], [])"
proof -
  note ne = tag_neq [OF assms]
  let ?d1 = "SkPictureData (Some []) [] [] [] [] [] [] [] info None []"
  let ?d2 = "SkPictureData (Some []) [] [] [] [] [] [] [] info (Some []) []"
  let ?eof = "write32 (SK_PICT_EOF_TAG T)"
  let ?buf = "write32 (SK_PICT_BUFFER_SIZE_TAG T) @ write32 0 @ ?eof"
  let ?tfs = "write32 (SK_PICT_TYPEFACE_TAG T) @ write32 0 @ ?buf"
  let ?fac = "write32 (SK_PICT_FACTORY_TAG T) @ write32 4 @ write32 0 @ ?tfs"
  have reader: "parseStreamTag T R mk (new_SkPictureData info) ?fac (SK_PICT_READER_TAG T) 0
                  OwnTable = Inr (?d1, ?fac)"
    by (simp add: parseStreamTag_def new_SkPictureData_def)
  have factory: "parseStreamTag T R mk ?d1 (write32 0 @ ?tfs) (SK_PICT_FACTORY_TAG T) 4 OwnTable
                   = Inr (?d2, ?tfs)"
    using ne by (simp add: parseStreamTag_def)
  have typeface: "parseStreamTag T R mk ?d2 ?buf (SK_PICT_TYPEFACE_TAG T) 0 OwnTable
                    = Inr (?d2, ?buf)"
    using ne by (simp add: parseStreamTag_def)
  have buffer: "parseStreamTag T R mk ?d2 ?eof (SK_PICT_BUFFER_SIZE_TAG T) 0 OwnTable
                  = Inr (?d2, ?eof)"
    using ne
    by (simp add: parseStreamTag_def setup_buffer_def new_SkReadBuffer_def
                  parseBufferLoop_eof isValid_def)
  have "parseStream T R mk (new_SkPictureData info)
          (write32 (SK_PICT_READER_TAG T) @ write32 0 @ ?fac) OwnTable
        = parseStream T R mk ?d1 ?fac OwnTable"
    using ne by (intro parseStream_section reader) simp
  also have "\<dots> = parseStream T R mk ?d2 ?tfs OwnTable"
    using ne by (intro parseStream_section factory) simp
  also have "\<dots> = parseStream T R mk ?d2 ?buf OwnTable"
    using ne by (intro parseStream_section typeface) simp
  also have "\<dots> = parseStream T R mk ?d2 (?eof @ []) OwnTable"
    using ne by (simp only: append_Nil2) (intro parseStream_section buffer, simp)
  also have "\<dots> = Inr (?d2, [])"
    by (rule parseStream_eof)
  finally show ?thesis by (simp add: CreateFromStream_def)
qed

text \<open>
  A picture that holds one drawable. \<^verbatim>\<open>serialize\<close> writes the opcode bytes, the
  factories, the typefaces, the structured buffer of \<^verbatim>\<open>flattenToBuffer\<close> and the
  sub-pictures; neither of them writes \<^verbatim>\<open>fDrawables\<close>. The archive is that of the empty
  picture, and decoding it gives a picture data without drawables.
\<close>

theorem drawables_are_not_serialized_counterexample:
  "serialize four_cc_tags ex_writers () None one_drawable
     = Inr (write32 (SK_PICT_READER_TAG four_cc_tags) @ write32 0
            @ write32 (SK_PICT_FACTORY_TAG four_cc_tags) @ write32 4 @ write32 0
            @ write32 (SK_PICT_TYPEFACE_TAG four_cc_tags) @ write32 0
            @ write32 (SK_PICT_BUFFER_SIZE_TAG four_cc_tags) @ write32 0
            @ write32 (SK_PICT_EOF_TAG four_cc_tags), [])
   \<and> CreateFromStream four_cc_tags ex_readers (MakeFromStream four_cc_tags ex_readers v50)
        (write32 (SK_PICT_READER_TAG four_cc_tags) @ write32 0
         @ write32 (SK_PICT_FACTORY_TAG four_cc_tags) @ write32 4 @ write32 0
         @ write32 (SK_PICT_TYPEFACE_TAG four_cc_tags) @ write32 0
         @ write32 (SK_PICT_BUFFER_SIZE_TAG four_cc_tags) @ write32 0
         @ write32 (SK_PICT_EOF_TAG four_cc_tags)) v50 NullPtr
       = Inr (SkPictureData (Some []) [] [] [] [] [] [] [] v50 (Some []) [], [])
   \<and> fDrawables one_drawable = [7]
   \<and> fDrawables (SkPictureData (Some []) [] [] [] [] [] [] [] v50 (Some []) []
                   :: (byte, byte, byte, byte, byte, byte, byte, byte) SkPictureData) = []"
  using five_sections_decode [OF four_cc_tags_distinct, of ex_readers
                                 "MakeFromStream four_cc_tags ex_readers v50" v50]
  by (simp add: serialize_one_drawable) (simp add: one_drawable_def)

text \<open>
  C1. For a well-formed picture, \<^verbatim>\<open>serialize\<close> without a top-level typeface set returns
  an archive that \<^verbatim>\<open>CreateFromStream\<close> reads to its end and decodes to a picture data with
  the same opcode bytes, the same paints, paths, text blobs, vertices and images, and the
  same tree of sub-pictures; its array of drawables is empty, whatever the drawables of
  the picture were.
\<close>

theorem serialize_round_trip:
  fixes P :: "('pn, 'pt, 'bl, 'vx, 'im, 'dr, 'tf, 'fc) SkPictureData"
  assumes dist: "tags_distinct T" and wf: "well_formed T W R procs P"
  shows "\<exists>bytes S P'.
           serialize T W procs None P = Inr (bytes, S)
           \<and> CreateFromStream T R (MakeFromStream T R (fInfo P)) bytes (fInfo P) NullPtr
               = Inr (P', [])
           \<and> contents_of P' = contents_of P \<and> fDrawables P' = []"
proof (cases P)
  case (SkPictureData opData paints paths blobs verts images draws pics info fp tfp)
  let ?wbe = "flattenToBuffer T W procs P \<lparr>wb_bytes = [], fFactorySet = [], fTFSet = []\<rparr>"
  let ?S1 = "record_all [] (node_tf_refs W procs P)"
  let ?S2 = "record_all ?S1 (concat (map (added_list W (default_procs W)) pics))"
  have info: "fInfo P = info" and pics: "fPictures P = pics"
    using SkPictureData by simp_all
  have node: "node_ok T W R procs (fVersion info) [] P"
    and trees: "\<And>x. x \<in> set pics \<Longrightarrow> tree_ok T W R procs (fVersion info) ?S2 x"
    and real: "\<And>x. x \<in> set pics \<Longrightarrow> set (added_list W procs x) \<subseteq> set ?S2"
    and len: "length ?S2 < 2 ^ 31"
    and tfs: "\<forall>t \<in> set ?S2. typeface_ok W R t"
    using wf by (simp_all add: well_formed_def Let_def info pics)
  have "\<forall>x \<in> set pics. \<exists>bq. serialize T W procs (Some ?S2) x = Inr (fst bq, ?S2)
             \<and> (\<forall>rest. MakeFromStream T R info (fst bq @ rest) (Extern (map Some ?S2))
                          = Some (snd bq, length (fst bq)))
             \<and> contents_of (snd bq) = contents_of x \<and> fDrawables (snd bq) = []"
    using sub_picture_round_trip [OF dist len trees real] by blast
  from bchoice [OF this] obtain h where
    h: "\<And>x. x \<in> set pics \<Longrightarrow> serialize T W procs (Some ?S2) x = Inr (fst (h x), ?S2)"
       "\<And>x rest. x \<in> set pics
          \<Longrightarrow> MakeFromStream T R info (fst (h x) @ rest) (Extern (map Some ?S2))
              = Some (snd (h x), length (fst (h x)))"
       "\<And>x. x \<in> set pics \<Longrightarrow> contents_of (snd (h x)) = contents_of x"
    by blast
  have S1: "fTFSet ?wbe = ?S1" by (simp add: fTFSet_flattenToBuffer)
  have "\<forall>x \<in> set pics. has_ops x"
    by (intro ballI) (rule tree_ok_has_ops [OF trees])
  from serialize_typefaces(2) [OF this, of T W "default_procs W" ?S1]
  obtain dn where dn: "serialize_all T W (default_procs W) (fTFSet ?wbe) pics = Inr (dn, ?S2)"
    by (auto simp: S1)
  have pre: "prefix (fTFSet ?wbe) ?S2" unfolding S1 by (rule prefix_record_all)
  have "\<exists>bytes. serialize T W procs None P = Inr (bytes, ?S2)
           \<and> (\<forall>rest. parseStream T R (MakeFromStream T R info) (new_SkPictureData info)
                       (bytes @ rest) OwnTable
                 = Inr (SkPictureData opData paints paths blobs verts images []
                          (map (\<lambda>x. snd (h x)) pics) info
                          (Some (map (resolve W R) (fFactorySet ?wbe)))
                          (if (None :: 'tf list option) = None then map Some ?S2 else []), rest))"
    by (rule node_round_trip [where f = "\<lambda>x. fst (h x)" and g = "\<lambda>x. snd (h x)"
                                 and mk = "MakeFromStream T R info" and topSet = None
                                 and p = OwnTable,
                               OF SkPictureData dist node refl dn pre len h(1) h(2)])
       (simp_all add: tfs)
  then obtain bytes where
    ser: "serialize T W procs None P = Inr (bytes, ?S2)" and
    dec: "\<And>rest. parseStream T R (MakeFromStream T R info) (new_SkPictureData info)
                       (bytes @ rest) OwnTable
                 = Inr (SkPictureData opData paints paths blobs verts images []
                          (map (\<lambda>x. snd (h x)) pics) info
                          (Some (map (resolve W R) (fFactorySet ?wbe))) (map Some ?S2), rest)"
    by auto
  let ?P' = "SkPictureData opData paints paths blobs verts images []
               (map (\<lambda>x. snd (h x)) pics) info
               (Some (map (resolve W R) (fFactorySet ?wbe))) (map Some ?S2)"
  have "CreateFromStream T R (MakeFromStream T R info) bytes info NullPtr = Inr (?P', [])"
    using dec [of "[]"] by (simp add: CreateFromStream_def)
  moreover have "contents_of ?P' = contents_of P" using h(3) SkPictureData by simp
  ultimately show ?thesis
    using ser info by (intro exI [of _ bytes] exI [of _ ?S2] exI [of _ ?P']) simp
qed

theorem serialize_round_trip_witness:
  "tags_distinct four_cc_tags
   \<and> well_formed four_cc_tags ex_writers ex_readers () ex_picture
   \<and> (\<exists>bytes S P'.
         serialize four_cc_tags ex_writers () None ex_picture = Inr (bytes, S)
         \<and> CreateFromStream four_cc_tags ex_readers
             (MakeFromStream four_cc_tags ex_readers (fInfo ex_picture)) bytes
             (fInfo ex_picture) NullPtr
             = Inr (P', [])
         \<and> contents_of P' = contents_of ex_picture \<and> fDrawables P' = [])"
  using serialize_round_trip [OF four_cc_tags_distinct well_formed_example]
        four_cc_tags_distinct well_formed_example
  by simp

section \<open>The states the loops go through\<close>

text \<open>The outer loop gets from state \<open>x\<close> to state \<open>y\<close> through one section, of any tag.\<close>

definition any_section ::
  "pict_tags \<Rightarrow> ('pn, 'pt, 'bl, 'vx, 'im, 'dr, 'tf, 'fc) readers
     \<Rightarrow> (byte list \<Rightarrow> 'tf tf_ptr
           \<Rightarrow> (('pn, 'pt, 'bl, 'vx, 'im, 'dr, 'tf, 'fc) SkPictureData \<times> nat) option)
     \<Rightarrow> 'tf tf_ptr \<Rightarrow> ('pn, 'pt, 'bl, 'vx, 'im, 'dr, 'tf, 'fc) SkPictureData \<times> byte list
     \<Rightarrow> ('pn, 'pt, 'bl, 'vx, 'im, 'dr, 'tf, 'fc) SkPictureData \<times> byte list \<Rightarrow> bool" where
  "any_section T R mk p x y =
     (case section_step T R mk p x of
        None \<Rightarrow> False
      | Some (tag, y') \<Rightarrow> y' = y)"

text \<open>
  One turn of the \<^verbatim>\<open>while (!buffer.eof() && buffer.isValid())\<close> loop of the BUFFER_SIZE
  case: the loop is entered in state \<open>x\<close> and its body leaves the state \<open>y\<close>.
\<close>

definition inner_step ::
  "pict_tags \<Rightarrow> ('pn, 'pt, 'bl, 'vx, 'im, 'dr, 'tf, 'fc) readers
     \<Rightarrow> ('pn, 'pt, 'bl, 'vx, 'im, 'dr, 'tf, 'fc) SkPictureData \<times> ('tf, 'fc) SkReadBuffer
     \<Rightarrow> ('pn, 'pt, 'bl, 'vx, 'im, 'dr, 'tf, 'fc) SkPictureData \<times> ('tf, 'fc) SkReadBuffer
     \<Rightarrow> bool" where
  "inner_step T R x y \<longleftrightarrow>
     \<not> eof (snd x) \<and> isValid (snd x)
     \<and> y = (case readUInt (snd x) of (tag, b1) \<Rightarrow>
              (case readUInt b1 of (sz, b2) \<Rightarrow> parseBufferTag T R (fst x) b2 tag sz))"

text \<open>
  One turn of the loop of \<^verbatim>\<open>parseBuffer\<close> that dispatches a tag: the buffer is valid, the
  tag is not the EOF tag, and the handler leaves the state \<open>y\<close>.
\<close>

definition buffer_step ::
  "pict_tags \<Rightarrow> ('pn, 'pt, 'bl, 'vx, 'im, 'dr, 'tf, 'fc) readers
     \<Rightarrow> ('pn, 'pt, 'bl, 'vx, 'im, 'dr, 'tf, 'fc) SkPictureData \<times> ('tf, 'fc) SkReadBuffer
     \<Rightarrow> ('pn, 'pt, 'bl, 'vx, 'im, 'dr, 'tf, 'fc) SkPictureData \<times> ('tf, 'fc) SkReadBuffer
     \<Rightarrow> bool" where
  "buffer_step T R x y \<longleftrightarrow>
     isValid (snd x)
     \<and> (case readUInt (snd x) of (tag, b1) \<Rightarrow>
           SK_PICT_EOF_TAG T \<noteq> tag
           \<and> y = (case readUInt b1 of (sz, b2) \<Rightarrow> parseBufferTag T R (fst x) b2 tag sz))"

lemma any_sections_parseStream:
  assumes "(any_section T R mk p)\<^sup>*\<^sup>* x y"
  shows "parseStream T R mk (fst x) (snd x) p = parseStream T R mk (fst y) (snd y) p"
  using assms
proof (induction rule: rtranclp_induct)
  case base
  then show ?case by simp
next
  case (step y z)
  obtain tag where "section_step T R mk p (fst y, snd y) = Some (tag, fst z, snd z)"
    using step.hyps(2) by (auto simp: any_section_def split: option.splits)
  then show ?case using step.IH section_step_parseStream by fastforce
qed

lemma inner_steps_parseBufferLoop:
  assumes "(inner_step T R)\<^sup>*\<^sup>* x y"
  shows "parseBufferLoop T R (fst x) (snd x) = parseBufferLoop T R (fst y) (snd y)"
  using assms
proof (induction rule: rtranclp_induct)
  case base
  then show ?case by simp
next
  case (step y z)
  have "parseBufferLoop T R (fst y) (snd y) = parseBufferLoop T R (fst z) (snd z)"
    using step.hyps(2)
    by (simp add: inner_step_def parseBufferLoop.simps [of T R "fst y" "snd y"]
             split: prod.splits)
  then show ?case using step.IH by simp
qed

lemma buffer_steps_parseBuffer_loop:
  assumes "(buffer_step T R)\<^sup>*\<^sup>* x y"
  shows "parseBuffer_loop T R (fst x) (snd x) = parseBuffer_loop T R (fst y) (snd y)"
  using assms
proof (induction rule: rtranclp_induct)
  case base
  then show ?case by simp
next
  case (step y z)
  have "parseBuffer_loop T R (fst y) (snd y) = parseBuffer_loop T R (fst z) (snd z)"
    using step.hyps(2)
    by (auto simp: buffer_step_def parseBuffer_loop.simps [of T R "fst y" "snd y"]
             split: prod.splits)
  then show ?case using step.IH by simp
qed

section \<open>Unknown tags in the two loops\<close>

lemma unknown_tag_stops_parseBufferLoop:
  assumes "tag \<notin> set (inner_tags T)" and "\<not> fError b" and "rb_data b = write32 tag @ rest"
  shows "\<exists>b'. parseBufferLoop T R d b = (d, b') \<and> fError b'"
proof -
  obtain sz b2 where r2: "readUInt (b\<lparr>rb_data := rest\<rparr>) = (sz, b2)"
    by (cases "readUInt (b\<lparr>rb_data := rest\<rparr>)")
  have r1: "readUInt b = (tag, b\<lparr>rb_data := rest\<rparr>)"
    using assms(2,3) by (simp add: readUInt_def)
  have "\<not> eof b" using assms(3) by (simp add: eof_def write32_def)
  then have "parseBufferLoop T R d b = (d, b2\<lparr>fError := True\<rparr>)"
    using assms(2) r1 r2 parseBufferTag_unknown [OF assms(1), of R d b2 sz]
          parseBufferLoop_invalid [of "b2\<lparr>fError := True\<rparr>" T R d]
    by (simp add: parseBufferLoop.simps [of T R d b] isValid_def)
  then show ?thesis by simp
qed

lemma unknown_tag_stops_parseBuffer_loop:
  assumes "tag \<notin> set (inner_tags T)" and "tag \<noteq> SK_PICT_EOF_TAG T"
    and "\<not> fError b" and "rb_data b = write32 tag @ rest"
  shows "\<exists>b'. parseBuffer_loop T R d b = (d, b') \<and> fError b'"
proof -
  obtain sz b2 where r2: "readUInt (b\<lparr>rb_data := rest\<rparr>) = (sz, b2)"
    by (cases "readUInt (b\<lparr>rb_data := rest\<rparr>)")
  have r1: "readUInt b = (tag, b\<lparr>rb_data := rest\<rparr>)"
    using assms(3,4) by (simp add: readUInt_def)
  have stop: "parseBuffer_loop T R d (b2\<lparr>fError := True\<rparr>) = (d, b2\<lparr>fError := True\<rparr>)"
    by (simp add: parseBuffer_loop.simps [of T R d "b2\<lparr>fError := True\<rparr>"] isValid_def)
  have "parseBuffer_loop T R d b = (d, b2\<lparr>fError := True\<rparr>)"
    using assms(2,3) r1 r2 parseBufferTag_unknown [OF assms(1), of R d b2 sz] stop
    by (simp add: parseBuffer_loop.simps [of T R d b] isValid_def)
  then show ?thesis by simp
qed

text \<open>
  C8. The two loops treat an unknown tag differently. In the outer loop the handler
  returns true, changes nothing, and the loop goes on. In the structured buffer the
  handler latches the invalidity flag; wherever in the buffer the loop meets the unknown
  tag, after any number of sections, it stops with the flag set, the BUFFER_SIZE section
  fails and \<^verbatim>\<open>CreateFromStream\<close> returns null. The loop of \<^verbatim>\<open>parseBuffer\<close> dispatches
  with the same handler, and \<^verbatim>\<open>CreateFromBuffer\<close> returns null.
\<close>

theorem unknown_tag_asymmetry:
  "(tag \<notin> set (outer_tags T) \<longrightarrow> parseStreamTag T R mk d s tag sz p = Inr (d, s))
   \<and> (tag \<notin> set (outer_tags T) \<and> tag \<noteq> SK_PICT_EOF_TAG T
        \<longrightarrow> parseStream T R mk d (write32 tag @ write32 sz @ s) p = parseStream T R mk d s p)
   \<and> (tag \<notin> set (inner_tags T) \<longrightarrow> parseBufferTag T R d b tag sz = (d, b\<lparr>fError := True\<rparr>))
   \<and> (tag \<notin> set (inner_tags T) \<and> (inner_step T R)\<^sup>*\<^sup>* (dS, bS) (dU, bU) \<and> \<not> fError bU
        \<and> rb_data bU = write32 tag @ rest
        \<longrightarrow> fst (parseBufferLoop T R dS bS) = dU \<and> fError (snd (parseBufferLoop T R dS bS)))
   \<and> (tags_distinct T \<and> tag \<notin> set (inner_tags T)
        \<and> q = (if ptr = NullPtr then OwnTable else ptr)
        \<and> (any_section T R mk q)\<^sup>*\<^sup>* (new_SkPictureData info, stream)
             (dS, write32 (SK_PICT_BUFFER_SIZE_TAG T) @ write32 bsz @ after)
        \<and> unat bsz \<le> length after
        \<and> setup_buffer dS (take (unat bsz) after) q = Inr bS
        \<and> (inner_step T R)\<^sup>*\<^sup>* (dS, bS) (dU, bU) \<and> \<not> fError bU
        \<and> rb_data bU = write32 tag @ rest
        \<longrightarrow> parseStreamTag T R mk dS after (SK_PICT_BUFFER_SIZE_TAG T) bsz q = Inl Invalid
            \<and> CreateFromStream T R mk stream info ptr = Inl Invalid)
   \<and> (tag \<notin> set (inner_tags T) \<and> tag \<noteq> SK_PICT_EOF_TAG T
        \<and> (buffer_step T R)\<^sup>*\<^sup>* (new_SkPictureData info, bb\<lparr>rb_version := fVersion info\<rparr>)
             (dV, bV)
        \<and> \<not> fError bV \<and> rb_data bV = write32 tag @ restV
        \<longrightarrow> fst (CreateFromBuffer T R bb info) = None)"
proof -
  have loop: "fst (parseBufferLoop T R dS bS) = dU \<and> fError (snd (parseBufferLoop T R dS bS))"
    if "tag \<notin> set (inner_tags T)" "(inner_step T R)\<^sup>*\<^sup>* (dS, bS) (dU, bU)" "\<not> fError bU"
      "rb_data bU = write32 tag @ rest"
    for dS :: "('a, 'b, 'c, 'd, 'e, 'f, 'g, 'h) SkPictureData" and bS dU bU
  proof -
    have "parseBufferLoop T R dS bS = parseBufferLoop T R dU bU"
      using inner_steps_parseBufferLoop [OF that(2)] by simp
    then show ?thesis
      using unknown_tag_stops_parseBufferLoop [OF that(1,3,4), of R dU] by auto
  qed
  have outer: "parseStreamTag T R mk dS after (SK_PICT_BUFFER_SIZE_TAG T) bsz q = Inl Invalid
     \<and> CreateFromStream T R mk stream info ptr = Inl Invalid"
    if dist: "tags_distinct T" and unk: "tag \<notin> set (inner_tags T)"
      and q: "q = (if ptr = NullPtr then OwnTable else ptr)"
      and reach: "(any_section T R mk q)\<^sup>*\<^sup>* (new_SkPictureData info, stream)
             (dS, write32 (SK_PICT_BUFFER_SIZE_TAG T) @ write32 bsz @ after)"
      and len: "unat bsz \<le> length after"
      and buf: "setup_buffer dS (take (unat bsz) after) q = Inr bS"
      and inner: "(inner_step T R)\<^sup>*\<^sup>* (dS, bS) (dU, bU)" "\<not> fError bU"
        "rb_data bU = write32 tag @ rest"
  proof -
    obtain d' b' where bad: "parseBufferLoop T R dS bS = (d', b')" "fError b'"
      using loop [OF unk inner] by (cases "parseBufferLoop T R dS bS") simp
    have h: "parseStreamTag T R mk dS after (SK_PICT_BUFFER_SIZE_TAG T) bsz q = Inl Invalid"
      using tag_neq [OF dist] len buf bad
      by (simp add: parseStreamTag_def isValid_def)
    have "parseStream T R mk dS
            (write32 (SK_PICT_BUFFER_SIZE_TAG T) @ write32 bsz @ after) q = Inl Invalid"
      using tag_neq [OF dist] h
      by (simp add: parseStream.simps
                      [of T R mk dS "write32 (SK_PICT_BUFFER_SIZE_TAG T) @ write32 bsz @ after"])
    then have "CreateFromStream T R mk stream info ptr = Inl Invalid"
      using any_sections_parseStream [OF reach] q by (simp add: CreateFromStream_def)
    then show ?thesis using h by simp
  qed
  have buffer: "fst (CreateFromBuffer T R bb info) = None"
    if unk: "tag \<notin> set (inner_tags T)" and ne: "tag \<noteq> SK_PICT_EOF_TAG T"
      and reach: "(buffer_step T R)\<^sup>*\<^sup>*
                    (new_SkPictureData info, bb\<lparr>rb_version := fVersion info\<rparr>) (dV, bV)"
      and inner: "\<not> fError bV" "rb_data bV = write32 tag @ restV"
  proof -
    obtain b' where "parseBuffer_loop T R dV bV = (dV, b')" "fError b'"
      using unknown_tag_stops_parseBuffer_loop [OF unk ne inner, of R dV] by auto
    then have "parseBuffer_loop T R (new_SkPictureData info) (bb\<lparr>rb_version := fVersion info\<rparr>)
                 = (dV, b')" "fError b'"
      using buffer_steps_parseBuffer_loop [OF reach] by simp_all
    then show ?thesis
      by (simp add: CreateFromBuffer_def parseBuffer_def validate_def)
  qed
  have skip: "parseStream T R mk d (write32 tag @ write32 sz @ s) p = parseStream T R mk d s p"
    if "tag \<notin> set (outer_tags T)" "tag \<noteq> SK_PICT_EOF_TAG T"
    using that parseStreamTag_unknown [OF that(1), of R mk d s sz p]
    by (simp add: parseStream.simps [of T R mk d "write32 tag @ write32 sz @ s" p])
  show ?thesis
    using parseStreamTag_unknown [of tag T R mk d s sz p]
          parseBufferTag_unknown [of tag T R d b sz] skip loop outer buffer
    by blast
qed

text \<open>
  A stream with an empty READER section, a FACTORY section without entries and a
  BUFFER_SIZE section of 17 bytes: a TEXTBLOB section with one blob, then the unknown tag
  \<open>0x12345678\<close>. The section is complete and the factory playback is there. The same
  stream without the eight bytes of the unknown tag is accepted.
\<close>

theorem unknown_tag_asymmetry_witness:
  "0x12345678 \<notin> set (outer_tags four_cc_tags)
   \<and> 0x12345678 \<noteq> SK_PICT_EOF_TAG four_cc_tags
   \<and> 0x12345678 \<notin> set (inner_tags four_cc_tags)
   \<and> tags_distinct four_cc_tags
   \<and> (any_section four_cc_tags ex_readers no_pictures OwnTable)\<^sup>*\<^sup>*
        (new_SkPictureData v50,
         write32 (SK_PICT_READER_TAG four_cc_tags) @ write32 0
         @ write32 (SK_PICT_FACTORY_TAG four_cc_tags) @ write32 4 @ write32 0
         @ write32 (SK_PICT_BUFFER_SIZE_TAG four_cc_tags) @ write32 17
         @ (write32 (SK_PICT_TEXTBLOB_BUFFER_TAG four_cc_tags) @ write32 1 @ [6]
            @ write32 0x12345678 @ write32 0)
         @ write32 (SK_PICT_EOF_TAG four_cc_tags))
        (SkPictureData (Some []) [] [] [] [] [] [] [] v50 (Some []) [],
         write32 (SK_PICT_BUFFER_SIZE_TAG four_cc_tags) @ write32 17
         @ (write32 (SK_PICT_TEXTBLOB_BUFFER_TAG four_cc_tags) @ write32 1 @ [6]
            @ write32 0x12345678 @ write32 0)
         @ write32 (SK_PICT_EOF_TAG four_cc_tags))
   \<and> setup_buffer
        (SkPictureData (Some []) [] [] [] [] [] [] [] v50 (Some [])
           [] :: (byte, byte, byte, byte, byte, byte, byte, byte) SkPictureData)
        (take (unat (17 :: u32))
           ((write32 (SK_PICT_TEXTBLOB_BUFFER_TAG four_cc_tags) @ write32 1 @ [6]
             @ write32 0x12345678 @ write32 0)
            @ write32 (SK_PICT_EOF_TAG four_cc_tags))) OwnTable
       = Inr \<lparr>rb_data = write32 (SK_PICT_TEXTBLOB_BUFFER_TAG four_cc_tags) @ write32 1 @ [6]
                          @ write32 0x12345678 @ write32 0,
              fError = False, rb_version = 50, fFactoryArray = [], fTFArray = []\<rparr>
   \<and> (inner_step four_cc_tags ex_readers)\<^sup>*\<^sup>*
        (SkPictureData (Some []) [] [] [] [] [] [] [] v50 (Some []) [],
         \<lparr>rb_data = write32 (SK_PICT_TEXTBLOB_BUFFER_TAG four_cc_tags) @ write32 1 @ [6]
                      @ write32 0x12345678 @ write32 0,
          fError = False, rb_version = 50, fFactoryArray = [], fTFArray = []\<rparr>)
        (SkPictureData (Some []) [] [] [6] [] [] [] [] v50 (Some []) [],
         \<lparr>rb_data = write32 0x12345678 @ write32 0,
          fError = False, rb_version = 50, fFactoryArray = [], fTFArray = []\<rparr>)
   \<and> fst (parseBufferLoop four_cc_tags ex_readers
             (SkPictureData (Some []) [] [] [] [] [] [] [] v50 (Some []) [])
             \<lparr>rb_data = write32 (SK_PICT_TEXTBLOB_BUFFER_TAG four_cc_tags) @ write32 1 @ [6]
                          @ write32 0x12345678 @ write32 0,
              fError = False, rb_version = 50, fFactoryArray = [], fTFArray = []\<rparr>)
       = SkPictureData (Some []) [] [] [6] [] [] [] [] v50 (Some []) []
   \<and> fError (snd (parseBufferLoop four_cc_tags ex_readers
             (SkPictureData (Some []) [] [] [] [] [] [] [] v50 (Some []) [])
             \<lparr>rb_data = write32 (SK_PICT_TEXTBLOB_BUFFER_TAG four_cc_tags) @ write32 1 @ [6]
                          @ write32 0x12345678 @ write32 0,
              fError = False, rb_version = 50, fFactoryArray = [], fTFArray = []\<rparr>))
   \<and> CreateFromStream four_cc_tags ex_readers no_pictures
        (write32 (SK_PICT_READER_TAG four_cc_tags) @ write32 0
         @ write32 (SK_PICT_FACTORY_TAG four_cc_tags) @ write32 4 @ write32 0
         @ write32 (SK_PICT_BUFFER_SIZE_TAG four_cc_tags) @ write32 17
         @ (write32 (SK_PICT_TEXTBLOB_BUFFER_TAG four_cc_tags) @ write32 1 @ [6]
            @ write32 0x12345678 @ write32 0)
         @ write32 (SK_PICT_EOF_TAG four_cc_tags)) v50 NullPtr
       = Inl Invalid
   \<and> CreateFromStream four_cc_tags ex_readers no_pictures
        (write32 (SK_PICT_READER_TAG four_cc_tags) @ write32 0
         @ write32 (SK_PICT_FACTORY_TAG four_cc_tags) @ write32 4 @ write32 0
         @ write32 (SK_PICT_BUFFER_SIZE_TAG four_cc_tags) @ write32 9
         @ (write32 (SK_PICT_TEXTBLOB_BUFFER_TAG four_cc_tags) @ write32 1 @ [6])
         @ write32 (SK_PICT_EOF_TAG four_cc_tags)) v50 NullPtr
       = Inr (SkPictureData (Some []) [] [] [6] [] [] [] [] v50 (Some []) [], [])
   \<and> (buffer_step four_cc_tags ex_readers)\<^sup>*\<^sup>*
        (new_SkPictureData v50,
         (new_SkReadBuffer (write32 (SK_PICT_TEXTBLOB_BUFFER_TAG four_cc_tags) @ write32 1 @ [6]
                            @ write32 0x12345678 @ write32 0))\<lparr>rb_version := fVersion v50\<rparr>)
        (SkPictureData None [] [] [6] [] [] [] [] v50 None [],
         \<lparr>rb_data = write32 0x12345678 @ write32 0,
          fError = False, rb_version = 50, fFactoryArray = [], fTFArray = []\<rparr>)
   \<and> fst (CreateFromBuffer four_cc_tags ex_readers
             (new_SkReadBuffer (write32 (SK_PICT_TEXTBLOB_BUFFER_TAG four_cc_tags) @ write32 1
                                @ [6] @ write32 0x12345678 @ write32 0)) v50) = None"
proof -
  let ?T = four_cc_tags
  let ?unk = "write32 0x12345678 @ write32 0"
  let ?blob = "write32 (SK_PICT_TEXTBLOB_BUFFER_TAG ?T) @ write32 1 @ [6]"
  let ?eof = "write32 (SK_PICT_EOF_TAG ?T)"
  let ?buf = "write32 (SK_PICT_BUFFER_SIZE_TAG ?T) @ write32 17 @ (?blob @ ?unk) @ ?eof"
  let ?fac = "write32 (SK_PICT_FACTORY_TAG ?T) @ write32 4 @ write32 0 @ ?buf"
  let ?stream = "write32 (SK_PICT_READER_TAG ?T) @ write32 0 @ ?fac"
  let ?dR = "SkPictureData (Some []) [] [] [] [] [] [] [] v50 None []
               :: (byte, byte, byte, byte, byte, byte, byte, byte) SkPictureData"
  let ?dS = "SkPictureData (Some []) [] [] [] [] [] [] [] v50 (Some []) []
               :: (byte, byte, byte, byte, byte, byte, byte, byte) SkPictureData"
  let ?dU = "SkPictureData (Some []) [] [] [6] [] [] [] [] v50 (Some []) []
               :: (byte, byte, byte, byte, byte, byte, byte, byte) SkPictureData"
  let ?dV = "SkPictureData None [] [] [6] [] [] [] [] v50 None []
               :: (byte, byte, byte, byte, byte, byte, byte, byte) SkPictureData"
  let ?bS = "\<lparr>rb_data = ?blob @ ?unk, fError = False, rb_version = 50, fFactoryArray = [],
              fTFArray = []\<rparr> :: (byte, byte) SkReadBuffer"
  let ?bU = "\<lparr>rb_data = ?unk, fError = False, rb_version = 50, fFactoryArray = [],
              fTFArray = []\<rparr> :: (byte, byte) SkReadBuffer"
  have o: "0x12345678 \<notin> set (outer_tags ?T)" by (simp add: outer_tags_def four_cc_tags_def)
  have e: "0x12345678 \<noteq> SK_PICT_EOF_TAG ?T" by (simp add: four_cc_tags_def)
  have i: "0x12345678 \<notin> set (inner_tags ?T)" by (simp add: inner_tags_def four_cc_tags_def)
  have d: "tags_distinct ?T" by (rule four_cc_tags_distinct)
  note ne = tag_neq [OF d]
  have q: "OwnTable = (if (NullPtr :: byte tf_ptr) = NullPtr then OwnTable else NullPtr)"
    by simp
  have s1: "any_section ?T ex_readers no_pictures OwnTable (new_SkPictureData v50, ?stream)
              (?dR, ?fac)"
    using ne by (simp add: any_section_def section_step_def parseStreamTag_def
                           new_SkPictureData_def)
  have s2: "any_section ?T ex_readers no_pictures OwnTable (?dR, ?fac) (?dS, ?buf)"
    using ne by (simp add: any_section_def section_step_def parseStreamTag_def)
  have reach: "(any_section ?T ex_readers no_pictures OwnTable)\<^sup>*\<^sup>*
                 (new_SkPictureData v50, ?stream) (?dS, ?buf)"
    using s1 s2 by (rule converse_rtranclp_into_rtranclp [OF _ r_into_rtranclp])
  have len: "unat (17 :: u32) \<le> length ((?blob @ ?unk) @ ?eof)" by simp
  have buf: "setup_buffer ?dS (take (unat (17 :: u32)) ((?blob @ ?unk) @ ?eof)) OwnTable
               = Inr ?bS"
    by (simp add: setup_buffer_def new_SkReadBuffer_def v50_def)
  have blob: "parseBufferTag ?T ex_readers dd
                (\<lparr>rb_data = [6] @ ?unk, fError = False, rb_version = 50, fFactoryArray = [],
                  fTFArray = []\<rparr> :: (byte, byte) SkReadBuffer)
                (SK_PICT_TEXTBLOB_BUFFER_TAG ?T) 1
              = (set_fTextBlobs [6] dd, ?bU)"
    if "fTextBlobs dd = []"
    for dd :: "(byte, byte, byte, byte, byte, byte, byte, byte) SkPictureData"
    using that
    by (simp add: inner_dispatch(1) [OF d] new_array_from_buffer_def validate_def
                  SkTFitsIn_int_def typed_read_def read_byte_def ex_readers_def)
  have t1: "inner_step ?T ex_readers (?dS, ?bS) (?dU, ?bU)"
    using blob [of ?dS] by (simp add: inner_step_def eof_def isValid_def readUInt_def)
  have inner: "(inner_step ?T ex_readers)\<^sup>*\<^sup>* (?dS, ?bS) (?dU, ?bU)"
    using t1 by (rule r_into_rtranclp)
  have u1: "buffer_step ?T ex_readers
              (new_SkPictureData v50,
               (new_SkReadBuffer (?blob @ ?unk))\<lparr>rb_version := fVersion v50\<rparr>) (?dV, ?bU)"
    using blob [of "new_SkPictureData v50"] ne
    by (simp add: buffer_step_def isValid_def readUInt_def new_SkReadBuffer_def v50_def
                  new_SkPictureData_def)
  have outer: "(buffer_step ?T ex_readers)\<^sup>*\<^sup>*
              (new_SkPictureData v50,
               (new_SkReadBuffer (?blob @ ?unk))\<lparr>rb_version := fVersion v50\<rparr>) (?dV, ?bU)"
    using u1 by (rule r_into_rtranclp)
  have clean: "CreateFromStream ?T ex_readers no_pictures
        (write32 (SK_PICT_READER_TAG ?T) @ write32 0
         @ write32 (SK_PICT_FACTORY_TAG ?T) @ write32 4 @ write32 0
         @ write32 (SK_PICT_BUFFER_SIZE_TAG ?T) @ write32 9 @ ?blob @ ?eof) v50 NullPtr
       = Inr (?dU, [])"
  proof -
    let ?bC = "\<lparr>rb_data = ?blob, fError = False, rb_version = 50, fFactoryArray = [],
                fTFArray = []\<rparr> :: (byte, byte) SkReadBuffer"
    have "parseBufferTag ?T ex_readers ?dS (?bC\<lparr>rb_data := [6]\<rparr>)
            (SK_PICT_TEXTBLOB_BUFFER_TAG ?T) 1 = (?dU, ?bC\<lparr>rb_data := []\<rparr>)"
      by (simp add: inner_dispatch(1) [OF d] new_array_from_buffer_def validate_def
                    SkTFitsIn_int_def typed_read_def read_byte_def ex_readers_def)
    then have "parseBufferLoop ?T ex_readers ?dS ?bC = (?dU, ?bC\<lparr>rb_data := []\<rparr>)"
      using parseBufferLoop_section [of ?bC "SK_PICT_TEXTBLOB_BUFFER_TAG ?T" 1 "[6]"
                                        ?T ex_readers ?dS ?dU "?bC\<lparr>rb_data := []\<rparr>"]
      by (simp add: parseBufferLoop_eof)
    then have "parseStreamTag ?T ex_readers no_pictures ?dS (?blob @ ?eof)
                 (SK_PICT_BUFFER_SIZE_TAG ?T) 9 OwnTable = Inr (?dU, ?eof)"
      using ne by (simp add: parseStreamTag_def setup_buffer_def new_SkReadBuffer_def v50_def
                             isValid_def)
    then have "parseStream ?T ex_readers no_pictures ?dS
                 (write32 (SK_PICT_BUFFER_SIZE_TAG ?T) @ write32 9 @ ?blob @ ?eof) OwnTable
               = Inr (?dU, [])"
      using ne parseStream_eof [of ?T ex_readers no_pictures ?dU "[]" OwnTable]
            parseStream_section [of "SK_PICT_BUFFER_SIZE_TAG ?T" ?T ex_readers no_pictures ?dS
                                    "?blob @ ?eof" 9 OwnTable ?dU ?eof]
      by simp
    moreover have "parseStream ?T ex_readers no_pictures (new_SkPictureData v50)
                 (write32 (SK_PICT_READER_TAG ?T) @ write32 0
                  @ write32 (SK_PICT_FACTORY_TAG ?T) @ write32 4 @ write32 0
                  @ write32 (SK_PICT_BUFFER_SIZE_TAG ?T) @ write32 9 @ ?blob @ ?eof) OwnTable
               = parseStream ?T ex_readers no_pictures ?dS
                 (write32 (SK_PICT_BUFFER_SIZE_TAG ?T) @ write32 9 @ ?blob @ ?eof) OwnTable"
      using ne
      by (simp add: parseStream.simps [of ?T ex_readers no_pictures _ "write32 (SK_PICT_READER_TAG ?T) @ _"]
                    parseStream.simps [of ?T ex_readers no_pictures _ "write32 (SK_PICT_FACTORY_TAG ?T) @ _"]
                    parseStreamTag_def new_SkPictureData_def)
    ultimately show ?thesis by (simp add: CreateFromStream_def)
  qed
  show ?thesis
    using unknown_tag_asymmetry
            [where tag = "0x12345678" and T = ?T and R = ex_readers and mk = no_pictures
               and d = ?dS and s = "[]" and sz = 0 and p = OwnTable and b = ?bS
               and dS = ?dS and bS = ?bS and dU = ?dU and bU = ?bU and rest = "write32 0"
               and q = OwnTable and ptr = NullPtr and info = v50 and stream = ?stream
               and bsz = 17 and after = "(?blob @ ?unk) @ ?eof"
               and bb = "new_SkReadBuffer (?blob @ ?unk)" and dV = ?dV and bV = ?bU
               and restV = "write32 0"]
          o e i d q reach len buf inner outer clean
    by simp
qed

section \<open>The typeface playback of the read buffer\<close>

text \<open>The outer loop gets from state \<open>x\<close> to state \<open>y\<close> through a section that is not a
  TYPEFACE section.\<close>

definition non_typeface_section ::
  "pict_tags \<Rightarrow> ('pn, 'pt, 'bl, 'vx, 'im, 'dr, 'tf, 'fc) readers
     \<Rightarrow> (byte list \<Rightarrow> 'tf tf_ptr
           \<Rightarrow> (('pn, 'pt, 'bl, 'vx, 'im, 'dr, 'tf, 'fc) SkPictureData \<times> nat) option)
     \<Rightarrow> 'tf tf_ptr \<Rightarrow> ('pn, 'pt, 'bl, 'vx, 'im, 'dr, 'tf, 'fc) SkPictureData \<times> byte list
     \<Rightarrow> ('pn, 'pt, 'bl, 'vx, 'im, 'dr, 'tf, 'fc) SkPictureData \<times> byte list \<Rightarrow> bool" where
  "non_typeface_section T R mk p x y =
     (case section_step T R mk p x of
        None \<Rightarrow> False
      | Some (tag, y') \<Rightarrow> tag \<noteq> SK_PICT_TYPEFACE_TAG T \<and> y' = y)"

lemma read_paints_keeps:
  "read_paints R n d b = (d', b') \<Longrightarrow> fTFPlayback d' = fTFPlayback d \<and> fInfo d' = fInfo d"
proof (induction n arbitrary: d b)
  case 0
  then show ?case by simp
next
  case (Suc n)
  then show ?case by (fastforce split: prod.splits if_splits)
qed

lemma read_paths_keeps:
  "read_paths R n d b = (d', b') \<Longrightarrow> fTFPlayback d' = fTFPlayback d \<and> fInfo d' = fInfo d"
proof (induction n arbitrary: d b)
  case 0
  then show ?case by simp
next
  case (Suc n)
  then show ?case by (fastforce split: prod.splits if_splits)
qed

lemma parseBufferTag_keeps:
  "parseBufferTag T R d b tag sz = (d', b')
     \<Longrightarrow> fTFPlayback d' = fTFPlayback d \<and> fInfo d' = fInfo d"
  unfolding parseBufferTag_def
  by (auto split: if_splits prod.splits option.splits
           dest: read_paints_keeps read_paths_keeps)

lemma parseBufferLoop_keeps:
  "fTFPlayback (fst (parseBufferLoop T R d b)) = fTFPlayback d
   \<and> fInfo (fst (parseBufferLoop T R d b)) = fInfo d"
proof (induction T R d b rule: parseBufferLoop.induct)
  case (1 T R d buffer)
  show ?case
  proof (cases "\<not> eof buffer \<and> isValid buffer")
    case True
    obtain tag b1 where r1: "readUInt buffer = (tag, b1)" by (cases "readUInt buffer")
    obtain sz b2 where r2: "readUInt b1 = (sz, b2)" by (cases "readUInt b1")
    obtain d' b3 where t: "parseBufferTag T R d b2 tag sz = (d', b3)"
      by (cases "parseBufferTag T R d b2 tag sz")
    have "parseBufferLoop T R d buffer = parseBufferLoop T R d' b3"
      using True r1 r2 t by (simp add: parseBufferLoop.simps [of T R d buffer])
    then show ?thesis
      using "1.IH" [OF True r1 [symmetric] r2 [symmetric] t [symmetric]]
            parseBufferTag_keeps [OF t]
      by simp
  next
    case False
    then have "parseBufferLoop T R d buffer = (d, buffer)"
      by (auto simp: parseBufferLoop.simps [of T R d buffer])
    then show ?thesis by simp
  qed
qed

lemma read_pictures_keeps:
  "read_pictures mk n q d s = Inr (d', s')
     \<Longrightarrow> fTFPlayback d' = fTFPlayback d \<and> fInfo d' = fInfo d"
proof (induction n arbitrary: d s)
  case 0
  then show ?case by simp
next
  case (Suc n)
  then show ?case by (cases d) (auto split: option.splits)
qed

lemma parseStreamTag_keeps_info:
  assumes "parseStreamTag T R mk d s tag sz p = Inr (d', s')"
  shows "fInfo d' = fInfo d"
proof -
  have "fInfo dd = fInfo d" if "parseBufferLoop T R d b = (dd, bb)" for b dd bb
    using parseBufferLoop_keeps [of T R d b] that by simp
  then show ?thesis
    using assms read_pictures_keeps [of mk "unat sz" "pass_ptr p d" d s d' s']
    by (auto simp: parseStreamTag_def Let_def
             split: if_splits prod.splits option.splits sum.splits)
qed

lemma parseStreamTag_keeps_typefaces:
  assumes "tag \<noteq> SK_PICT_TYPEFACE_TAG T"
    and "parseStreamTag T R mk d s tag sz p = Inr (d', s')"
  shows "fTFPlayback d' = fTFPlayback d"
proof -
  have "fTFPlayback dd = fTFPlayback d" if "parseBufferLoop T R d b = (dd, bb)" for b dd bb
    using parseBufferLoop_keeps [of T R d b] that by simp
  then show ?thesis
    using assms read_pictures_keeps [of mk "unat sz" "pass_ptr p d" d s d' s']
    by (auto simp: parseStreamTag_def Let_def
             split: if_splits prod.splits option.splits sum.splits)
qed

lemma any_sections_keep_info:
  assumes "(any_section T R mk p)\<^sup>*\<^sup>* x y"
  shows "fInfo (fst y) = fInfo (fst x)"
  using assms
proof (induction rule: rtranclp_induct)
  case base
  then show ?case by simp
next
  case (step y z)
  obtain tag sz s where "parseStreamTag T R mk (fst y) s tag sz p = Inr (fst z, snd z)"
    using step.hyps(2)
    by (auto simp: any_section_def section_step_def split: option.splits if_splits sum.splits)
  then show ?case using step.IH parseStreamTag_keeps_info by fastforce
qed

lemma non_typeface_sections_invariant:
  assumes "(non_typeface_section T R mk p)\<^sup>*\<^sup>* x y"
  shows "fTFPlayback (fst y) = fTFPlayback (fst x) \<and> fInfo (fst y) = fInfo (fst x)
    \<and> parseStream T R mk (fst x) (snd x) p = parseStream T R mk (fst y) (snd y) p"
  using assms
proof (induction rule: rtranclp_induct)
  case base
  then show ?case by simp
next
  case (step y z)
  obtain tag where st: "section_step T R mk p (fst y, snd y) = Some (tag, fst z, snd z)"
    and tag: "tag \<noteq> SK_PICT_TYPEFACE_TAG T"
    using step.hyps(2) by (auto simp: non_typeface_section_def split: option.splits)
  obtain sz s where h: "parseStreamTag T R mk (fst y) s tag sz p = Inr (fst z, snd z)"
    using st by (auto simp: section_step_def split: option.splits if_splits sum.splits)
  show ?case
    using step.IH parseStreamTag_keeps_typefaces [OF tag h] parseStreamTag_keeps_info [OF h]
          section_step_parseStream [OF st]
    by simp
qed

text \<open>The BUFFER_SIZE section of a picture that is decoded with the top-level playback
  \<open>tab\<close>: the read buffer the structured buffer is parsed with.\<close>

lemma buffer_size_section:
  assumes dist: "tags_distinct T" and fp: "fFactoryPlayback d = Some fp"
    and len: "unat sz \<le> length after"
  shows "parseStream T R mk d (write32 (SK_PICT_BUFFER_SIZE_TAG T) @ write32 sz @ after)
           (Extern tab)
         = (case parseBufferLoop T R d
                   \<lparr>rb_data = take (unat sz) after, fError = False,
                    rb_version = fVersion (fInfo d), fFactoryArray = fp,
                    fTFArray = (if fTFPlayback d = [] then tab else fTFPlayback d)\<rparr> of
              (d', b') \<Rightarrow>
                if fError b' then Inl Invalid
                else parseStream T R mk d' (drop (unat sz) after) (Extern tab))"
  using tag_neq [OF dist] fp len
  by (simp add: parseStream.simps
                  [of T R mk d "write32 (SK_PICT_BUFFER_SIZE_TAG T) @ write32 sz @ after"]
                parseStreamTag_def setup_buffer_def new_SkReadBuffer_def isValid_def
           split: prod.splits)

text \<open>
  C3. The claim ties the choice of the typeface playback to the version of the stream.
  The code does not read the version for this. A sub-picture is decoded by
  \<^verbatim>\<open>CreateFromStream\<close> with the top-level playback \<open>tab\<close>. When its loop gets to a
  BUFFER_SIZE section without having met a TYPEFACE section, the structured buffer is
  parsed with \<open>tab\<close>. When the last TYPEFACE section it met before the BUFFER_SIZE
  section has \<open>count\<close> entries, the structured buffer is parsed with the table \<open>own\<close> that
  section built if \<open>count > 0\<close>, and with \<open>tab\<close> otherwise. This holds for every version
  \<open>info\<close>, which is only copied into the read buffer.
\<close>

theorem typeface_playback_choice:
  assumes "tags_distinct T"
  shows
    "((non_typeface_section T R mk (Extern tab))\<^sup>*\<^sup>* (new_SkPictureData info, streamP)
         (dP, write32 (SK_PICT_BUFFER_SIZE_TAG T) @ write32 szP @ afterP)
      \<and> fFactoryPlayback dP = Some fpP \<and> unat szP \<le> length afterP
      \<longrightarrow> CreateFromStream T R mk streamP info (Extern tab)
          = (case parseBufferLoop T R dP
                    \<lparr>rb_data = take (unat szP) afterP, fError = False,
                     rb_version = fVersion info, fFactoryArray = fpP, fTFArray = tab\<rparr> of
               (d', b') \<Rightarrow>
                 if fError b' then Inl Invalid
                 else parseStream T R mk d' (drop (unat szP) afterP) (Extern tab)))
     \<and> ((any_section T R mk (Extern tab))\<^sup>*\<^sup>* (new_SkPictureData info, stream)
           (dT, write32 (SK_PICT_TYPEFACE_TAG T) @ write32 count @ sT)
        \<and> read_typefaces R (nat (sint count)) 0 (replicate (nat (sint count)) None) sT
            = (own, sB)
        \<and> (non_typeface_section T R mk (Extern tab))\<^sup>*\<^sup>* (set_fTFPlayback own dT, sB)
            (d, write32 (SK_PICT_BUFFER_SIZE_TAG T) @ write32 sz @ after)
        \<and> fFactoryPlayback d = Some fp \<and> unat sz \<le> length after
        \<longrightarrow> CreateFromStream T R mk stream info (Extern tab)
            = (case parseBufferLoop T R d
                      \<lparr>rb_data = take (unat sz) after, fError = False,
                       rb_version = fVersion info, fFactoryArray = fp,
                       fTFArray = (if 0 < sint count then own else tab)\<rparr> of
                 (d', b') \<Rightarrow>
                   if fError b' then Inl Invalid
                   else parseStream T R mk d' (drop (unat sz) after) (Extern tab)))"
proof (intro conjI impI; elim conjE)
  assume reach: "(non_typeface_section T R mk (Extern tab))\<^sup>*\<^sup>*
                   (new_SkPictureData info, streamP)
                   (dP, write32 (SK_PICT_BUFFER_SIZE_TAG T) @ write32 szP @ afterP)"
    and fp: "fFactoryPlayback dP = Some fpP" and len: "unat szP \<le> length afterP"
  have inv: "fTFPlayback dP = []" "fInfo dP = info"
    "parseStream T R mk (new_SkPictureData info) streamP (Extern tab)
       = parseStream T R mk dP
           (write32 (SK_PICT_BUFFER_SIZE_TAG T) @ write32 szP @ afterP) (Extern tab)"
    using non_typeface_sections_invariant [OF reach] by (simp_all add: new_SkPictureData_def)
  show "CreateFromStream T R mk streamP info (Extern tab)
          = (case parseBufferLoop T R dP
                    \<lparr>rb_data = take (unat szP) afterP, fError = False,
                     rb_version = fVersion info, fFactoryArray = fpP, fTFArray = tab\<rparr> of
               (d', b') \<Rightarrow>
                 if fError b' then Inl Invalid
                 else parseStream T R mk d' (drop (unat szP) afterP) (Extern tab))"
    using buffer_size_section [OF assms fp len, of R mk tab] inv
    by (simp add: CreateFromStream_def)
next
  assume reach: "(any_section T R mk (Extern tab))\<^sup>*\<^sup>* (new_SkPictureData info, stream)
                   (dT, write32 (SK_PICT_TYPEFACE_TAG T) @ write32 count @ sT)"
    and tfs: "read_typefaces R (nat (sint count)) 0 (replicate (nat (sint count)) None) sT
                = (own, sB)"
    and quiet: "(non_typeface_section T R mk (Extern tab))\<^sup>*\<^sup>* (set_fTFPlayback own dT, sB)
                  (d, write32 (SK_PICT_BUFFER_SIZE_TAG T) @ write32 sz @ after)"
    and fp: "fFactoryPlayback d = Some fp" and len: "unat sz \<le> length after"
  have i1: "fInfo dT = info"
    "parseStream T R mk (new_SkPictureData info) stream (Extern tab)
       = parseStream T R mk dT (write32 (SK_PICT_TYPEFACE_TAG T) @ write32 count @ sT)
           (Extern tab)"
    using any_sections_keep_info [OF reach] any_sections_parseStream [OF reach]
    by (simp_all add: new_SkPictureData_def)
  have h: "parseStreamTag T R mk dT sT (SK_PICT_TYPEFACE_TAG T) count (Extern tab)
             = Inr (set_fTFPlayback own dT, sB)"
    using tag_neq [OF assms] tfs by (simp add: parseStreamTag_def Let_def)
  have i2: "parseStream T R mk dT (write32 (SK_PICT_TYPEFACE_TAG T) @ write32 count @ sT)
              (Extern tab)
            = parseStream T R mk (set_fTFPlayback own dT) sB (Extern tab)"
    using tag_neq [OF assms] by (intro parseStream_section h) simp
  have i3: "fTFPlayback d = own" "fInfo d = info"
    "parseStream T R mk (set_fTFPlayback own dT) sB (Extern tab)
       = parseStream T R mk d
           (write32 (SK_PICT_BUFFER_SIZE_TAG T) @ write32 sz @ after) (Extern tab)"
    using non_typeface_sections_invariant [OF quiet] i1(1) by simp_all
  have "length own = nat (sint count)"
    using read_typefaces_table [OF _ tfs] by simp
  then have own: "own = [] \<longleftrightarrow> \<not> 0 < sint count" by auto
  show "CreateFromStream T R mk stream info (Extern tab)
          = (case parseBufferLoop T R d
                    \<lparr>rb_data = take (unat sz) after, fError = False,
                     rb_version = fVersion info, fFactoryArray = fp,
                     fTFArray = (if 0 < sint count then own else tab)\<rparr> of
               (d', b') \<Rightarrow>
                 if fError b' then Inl Invalid
                 else parseStream T R mk d' (drop (unat sz) after) (Extern tab))"
    using buffer_size_section [OF assms fp len, of R mk tab] i1(2) i2 i3 own
    by (simp add: CreateFromStream_def)
qed

text \<open>
  The structured buffer with one paint, written as the index 0: with the example codecs
  the paint that is read is the entry 0 of the typeface playback of the read buffer.
\<close>

lemma paint_buffer_example:
  fixes d :: "(byte, byte, byte, byte, byte, byte, byte, byte) SkPictureData"
  shows "parseBufferLoop four_cc_tags ex_readers d
           \<lparr>rb_data = write32 (SK_PICT_PAINT_BUFFER_TAG four_cc_tags) @ write32 1 @ write32 0,
            fError = False, rb_version = v, fFactoryArray = [], fTFArray = [Some t]\<rparr>
         = (set_fPaints (fPaints d @ [t]) d,
            \<lparr>rb_data = [], fError = False, rb_version = v, fFactoryArray = [],
             fTFArray = [Some t]\<rparr>)"
proof -
  let ?rb = "\<lparr>rb_data = write32 (SK_PICT_PAINT_BUFFER_TAG four_cc_tags) @ write32 1 @ write32 0,
              fError = False, rb_version = v, fFactoryArray = [], fTFArray = [Some t]\<rparr>
              :: (byte, byte) SkReadBuffer"
  have "parseBufferTag four_cc_tags ex_readers d (?rb\<lparr>rb_data := write32 0\<rparr>)
          (SK_PICT_PAINT_BUFFER_TAG four_cc_tags) 1
        = (set_fPaints (fPaints d @ [t]) d, ?rb\<lparr>rb_data := []\<rparr>)"
    using readU32_write32 [of 0 "[]"]
    by (simp add: inner_dispatch_slots(1) [OF four_cc_tags_distinct] validate_def
                  SkTFitsIn_int_def slot_read_def read_tf_index_def ex_readers_def)
  then have "parseBufferLoop four_cc_tags ex_readers d ?rb
               = parseBufferLoop four_cc_tags ex_readers (set_fPaints (fPaints d @ [t]) d)
                   (?rb\<lparr>rb_data := []\<rparr>)"
    by (intro parseBufferLoop_section [where sz = 1 and s = "write32 0"]) simp_all
  then show ?thesis by (simp add: parseBufferLoop_eof)
qed

lemma reader_factory_example:
  "any_section four_cc_tags ex_readers no_pictures p
     (new_SkPictureData v50,
      write32 (SK_PICT_READER_TAG four_cc_tags) @ write32 0
      @ write32 (SK_PICT_FACTORY_TAG four_cc_tags) @ write32 4 @ write32 0 @ s)
     (SkPictureData (Some []) [] [] [] [] [] [] [] v50 None [],
      write32 (SK_PICT_FACTORY_TAG four_cc_tags) @ write32 4 @ write32 0 @ s)"
  "any_section four_cc_tags ex_readers no_pictures p
     (SkPictureData (Some []) [] [] [] [] [] [] [] v50 None [],
      write32 (SK_PICT_FACTORY_TAG four_cc_tags) @ write32 4 @ write32 0 @ s)
     (SkPictureData (Some []) [] [] [] [] [] [] [] v50 (Some []) [], s)"
  "non_typeface_section four_cc_tags ex_readers no_pictures p
     (new_SkPictureData v50,
      write32 (SK_PICT_READER_TAG four_cc_tags) @ write32 0
      @ write32 (SK_PICT_FACTORY_TAG four_cc_tags) @ write32 4 @ write32 0 @ s)
     (SkPictureData (Some []) [] [] [] [] [] [] [] v50 None [],
      write32 (SK_PICT_FACTORY_TAG four_cc_tags) @ write32 4 @ write32 0 @ s)"
  "non_typeface_section four_cc_tags ex_readers no_pictures p
     (SkPictureData (Some []) [] [] [] [] [] [] [] v50 None [],
      write32 (SK_PICT_FACTORY_TAG four_cc_tags) @ write32 4 @ write32 0 @ s)
     (SkPictureData (Some []) [] [] [] [] [] [] [] v50 (Some []) [], s)"
  using tag_neq [OF four_cc_tags_distinct]
  by (simp_all add: any_section_def non_typeface_section_def section_step_def parseStreamTag_def
                    new_SkPictureData_def)

lemma own_typeface_example:
  "read_typefaces ex_readers (nat (sint (1 :: u32))) 0 (replicate (nat (sint (1 :: u32))) None)
     ([3] @ s) = ([Some 3], s)"
  by (simp add: ex_readers_def)

lemma plain_stream_decodes:
  "CreateFromStream four_cc_tags ex_readers no_pictures
     (write32 (SK_PICT_READER_TAG four_cc_tags) @ write32 0
      @ write32 (SK_PICT_FACTORY_TAG four_cc_tags) @ write32 4 @ write32 0
      @ write32 (SK_PICT_BUFFER_SIZE_TAG four_cc_tags) @ write32 12
      @ (write32 (SK_PICT_PAINT_BUFFER_TAG four_cc_tags) @ write32 1 @ write32 0)
      @ write32 (SK_PICT_EOF_TAG four_cc_tags)) v50 (Extern [Some 9])
   = Inr (SkPictureData (Some []) [9] [] [] [] [] [] [] v50 (Some []) [], [])"
proof -
  let ?T = four_cc_tags
  let ?eof = "write32 (SK_PICT_EOF_TAG ?T)"
  let ?paint = "write32 (SK_PICT_PAINT_BUFFER_TAG ?T) @ write32 1 @ write32 0"
  let ?buf = "write32 (SK_PICT_BUFFER_SIZE_TAG ?T) @ write32 12 @ ?paint @ ?eof"
  let ?dF = "SkPictureData (Some []) [] [] [] [] [] [] [] v50 (Some []) []
               :: (byte, byte, byte, byte, byte, byte, byte, byte) SkPictureData"
  have "(any_section ?T ex_readers no_pictures (Extern [Some 9]))\<^sup>*\<^sup>*
          (new_SkPictureData v50,
           write32 (SK_PICT_READER_TAG ?T) @ write32 0
           @ write32 (SK_PICT_FACTORY_TAG ?T) @ write32 4 @ write32 0 @ ?buf) (?dF, ?buf)"
    using reader_factory_example(1) [of "Extern [Some 9]" ?buf]
          reader_factory_example(2) [of "Extern [Some 9]" ?buf]
    by (rule converse_rtranclp_into_rtranclp [OF _ r_into_rtranclp])
  from any_sections_parseStream [OF this]
  have "parseStream ?T ex_readers no_pictures (new_SkPictureData v50)
          (write32 (SK_PICT_READER_TAG ?T) @ write32 0
           @ write32 (SK_PICT_FACTORY_TAG ?T) @ write32 4 @ write32 0 @ ?buf) (Extern [Some 9])
        = parseStream ?T ex_readers no_pictures ?dF ?buf (Extern [Some 9])"
    by simp
  also have "\<dots> = Inr (SkPictureData (Some []) [9] [] [] [] [] [] [] v50 (Some []) [], [])"
    using buffer_size_section [OF four_cc_tags_distinct, of ?dF "[]" 12 "?paint @ ?eof"
                                  ex_readers no_pictures "[Some 9]"]
          parseStream_eof [of ?T ex_readers no_pictures _ "[]"]
    by (simp add: paint_buffer_example v50_def)
  finally show ?thesis by (simp add: CreateFromStream_def)
qed

lemma own_stream_decodes:
  "CreateFromStream four_cc_tags ex_readers no_pictures
     (write32 (SK_PICT_READER_TAG four_cc_tags) @ write32 0
      @ write32 (SK_PICT_FACTORY_TAG four_cc_tags) @ write32 4 @ write32 0
      @ write32 (SK_PICT_TYPEFACE_TAG four_cc_tags) @ write32 1 @ [3]
      @ write32 (SK_PICT_BUFFER_SIZE_TAG four_cc_tags) @ write32 12
      @ (write32 (SK_PICT_PAINT_BUFFER_TAG four_cc_tags) @ write32 1 @ write32 0)
      @ write32 (SK_PICT_EOF_TAG four_cc_tags)) v50 (Extern [Some 9])
   = Inr (SkPictureData (Some []) [3] [] [] [] [] [] [] v50 (Some []) [Some 3], [])"
proof -
  let ?T = four_cc_tags
  let ?eof = "write32 (SK_PICT_EOF_TAG ?T)"
  let ?paint = "write32 (SK_PICT_PAINT_BUFFER_TAG ?T) @ write32 1 @ write32 0"
  let ?buf = "write32 (SK_PICT_BUFFER_SIZE_TAG ?T) @ write32 12 @ ?paint @ ?eof"
  let ?tfs = "write32 (SK_PICT_TYPEFACE_TAG ?T) @ write32 1 @ [3] @ ?buf"
  let ?dF = "SkPictureData (Some []) [] [] [] [] [] [] [] v50 (Some []) []
               :: (byte, byte, byte, byte, byte, byte, byte, byte) SkPictureData"
  let ?dO = "SkPictureData (Some []) [] [] [] [] [] [] [] v50 (Some []) [Some 3]
               :: (byte, byte, byte, byte, byte, byte, byte, byte) SkPictureData"
  have "(any_section ?T ex_readers no_pictures (Extern [Some 9]))\<^sup>*\<^sup>*
          (new_SkPictureData v50,
           write32 (SK_PICT_READER_TAG ?T) @ write32 0
           @ write32 (SK_PICT_FACTORY_TAG ?T) @ write32 4 @ write32 0 @ ?tfs) (?dF, ?tfs)"
    using reader_factory_example(1) [of "Extern [Some 9]" ?tfs]
          reader_factory_example(2) [of "Extern [Some 9]" ?tfs]
    by (rule converse_rtranclp_into_rtranclp [OF _ r_into_rtranclp])
  from any_sections_parseStream [OF this]
  have "parseStream ?T ex_readers no_pictures (new_SkPictureData v50)
          (write32 (SK_PICT_READER_TAG ?T) @ write32 0
           @ write32 (SK_PICT_FACTORY_TAG ?T) @ write32 4 @ write32 0 @ ?tfs) (Extern [Some 9])
        = parseStream ?T ex_readers no_pictures ?dF ?tfs (Extern [Some 9])"
    by simp
  also have "\<dots> = parseStream ?T ex_readers no_pictures ?dO ?buf (Extern [Some 9])"
    using tag_neq [OF four_cc_tags_distinct] own_typeface_example [of ?buf]
    by (intro parseStream_section) (simp_all add: parseStreamTag_def Let_def)
  also have "\<dots> = Inr (SkPictureData (Some []) [3] [] [] [] [] [] [] v50 (Some []) [Some 3],
                         [])"
    using buffer_size_section [OF four_cc_tags_distinct, of ?dO "[]" 12 "?paint @ ?eof"
                                  ex_readers no_pictures "[Some 9]"]
          parseStream_eof [of ?T ex_readers no_pictures _ "[]"]
    by (simp add: paint_buffer_example v50_def)
  finally show ?thesis by (simp add: CreateFromStream_def)
qed

text \<open>
  A version 50 sub-picture with a TYPEFACE section of its own, decoded with the
  top-level playback \<open>[9]\<close>: its paint is read with its own table \<open>[3]\<close>, not with the
  top-level one. Without the TYPEFACE section the same buffer gives the paint 9.
\<close>

theorem version_above_43_own_table_counterexample:
  "43 < fVersion v50
   \<and> CreateFromStream four_cc_tags ex_readers no_pictures
       (write32 (SK_PICT_READER_TAG four_cc_tags) @ write32 0
        @ write32 (SK_PICT_FACTORY_TAG four_cc_tags) @ write32 4 @ write32 0
        @ write32 (SK_PICT_TYPEFACE_TAG four_cc_tags) @ write32 1 @ [3]
        @ write32 (SK_PICT_BUFFER_SIZE_TAG four_cc_tags) @ write32 12
        @ (write32 (SK_PICT_PAINT_BUFFER_TAG four_cc_tags) @ write32 1 @ write32 0)
        @ write32 (SK_PICT_EOF_TAG four_cc_tags)) v50 (Extern [Some 9])
     = Inr (SkPictureData (Some []) [3] [] [] [] [] [] [] v50 (Some []) [Some 3], [])
   \<and> CreateFromStream four_cc_tags ex_readers no_pictures
       (write32 (SK_PICT_READER_TAG four_cc_tags) @ write32 0
        @ write32 (SK_PICT_FACTORY_TAG four_cc_tags) @ write32 4 @ write32 0
        @ write32 (SK_PICT_BUFFER_SIZE_TAG four_cc_tags) @ write32 12
        @ (write32 (SK_PICT_PAINT_BUFFER_TAG four_cc_tags) @ write32 1 @ write32 0)
        @ write32 (SK_PICT_EOF_TAG four_cc_tags)) v50 (Extern [Some 9])
     = Inr (SkPictureData (Some []) [9] [] [] [] [] [] [] v50 (Some []) [], [])"
  using own_stream_decodes plain_stream_decodes by (simp add: v50_def)

text \<open>The two streams of the example, decoded as sub-pictures of version 50 with the
  top-level playback \<open>[9]\<close>.\<close>

theorem typeface_playback_choice_witness:
  "tags_distinct four_cc_tags
   \<and> (non_typeface_section four_cc_tags ex_readers no_pictures (Extern [Some 9]))\<^sup>*\<^sup>*
        (new_SkPictureData v50,
         write32 (SK_PICT_READER_TAG four_cc_tags) @ write32 0
         @ write32 (SK_PICT_FACTORY_TAG four_cc_tags) @ write32 4 @ write32 0
         @ write32 (SK_PICT_BUFFER_SIZE_TAG four_cc_tags) @ write32 12
         @ (write32 (SK_PICT_PAINT_BUFFER_TAG four_cc_tags) @ write32 1 @ write32 0)
         @ write32 (SK_PICT_EOF_TAG four_cc_tags))
        (SkPictureData (Some []) [] [] [] [] [] [] [] v50 (Some []) [],
         write32 (SK_PICT_BUFFER_SIZE_TAG four_cc_tags) @ write32 12
         @ (write32 (SK_PICT_PAINT_BUFFER_TAG four_cc_tags) @ write32 1 @ write32 0)
         @ write32 (SK_PICT_EOF_TAG four_cc_tags))
   \<and> unat (12 :: u32)
       \<le> length ((write32 (SK_PICT_PAINT_BUFFER_TAG four_cc_tags) @ write32 1 @ write32 0)
                   @ write32 (SK_PICT_EOF_TAG four_cc_tags))
   \<and> CreateFromStream four_cc_tags ex_readers no_pictures
        (write32 (SK_PICT_READER_TAG four_cc_tags) @ write32 0
         @ write32 (SK_PICT_FACTORY_TAG four_cc_tags) @ write32 4 @ write32 0
         @ write32 (SK_PICT_BUFFER_SIZE_TAG four_cc_tags) @ write32 12
         @ (write32 (SK_PICT_PAINT_BUFFER_TAG four_cc_tags) @ write32 1 @ write32 0)
         @ write32 (SK_PICT_EOF_TAG four_cc_tags)) v50 (Extern [Some 9])
       = Inr (SkPictureData (Some []) [9] [] [] [] [] [] [] v50 (Some []) [], [])
   \<and> (any_section four_cc_tags ex_readers no_pictures (Extern [Some 9]))\<^sup>*\<^sup>*
        (new_SkPictureData v50,
         write32 (SK_PICT_READER_TAG four_cc_tags) @ write32 0
         @ write32 (SK_PICT_FACTORY_TAG four_cc_tags) @ write32 4 @ write32 0
         @ write32 (SK_PICT_TYPEFACE_TAG four_cc_tags) @ write32 1 @ [3]
         @ write32 (SK_PICT_BUFFER_SIZE_TAG four_cc_tags) @ write32 12
         @ (write32 (SK_PICT_PAINT_BUFFER_TAG four_cc_tags) @ write32 1 @ write32 0)
         @ write32 (SK_PICT_EOF_TAG four_cc_tags))
        (SkPictureData (Some []) [] [] [] [] [] [] [] v50 (Some []) [],
         write32 (SK_PICT_TYPEFACE_TAG four_cc_tags) @ write32 1 @ [3]
         @ write32 (SK_PICT_BUFFER_SIZE_TAG four_cc_tags) @ write32 12
         @ (write32 (SK_PICT_PAINT_BUFFER_TAG four_cc_tags) @ write32 1 @ write32 0)
         @ write32 (SK_PICT_EOF_TAG four_cc_tags))
   \<and> read_typefaces ex_readers (nat (sint (1 :: u32))) 0
        (replicate (nat (sint (1 :: u32))) None)
        ([3] @ write32 (SK_PICT_BUFFER_SIZE_TAG four_cc_tags) @ write32 12
         @ (write32 (SK_PICT_PAINT_BUFFER_TAG four_cc_tags) @ write32 1 @ write32 0)
         @ write32 (SK_PICT_EOF_TAG four_cc_tags))
       = ([Some 3],
          write32 (SK_PICT_BUFFER_SIZE_TAG four_cc_tags) @ write32 12
          @ (write32 (SK_PICT_PAINT_BUFFER_TAG four_cc_tags) @ write32 1 @ write32 0)
          @ write32 (SK_PICT_EOF_TAG four_cc_tags))
   \<and> (0 :: int) < sint (1 :: u32)
   \<and> CreateFromStream four_cc_tags ex_readers no_pictures
        (write32 (SK_PICT_READER_TAG four_cc_tags) @ write32 0
         @ write32 (SK_PICT_FACTORY_TAG four_cc_tags) @ write32 4 @ write32 0
         @ write32 (SK_PICT_TYPEFACE_TAG four_cc_tags) @ write32 1 @ [3]
         @ write32 (SK_PICT_BUFFER_SIZE_TAG four_cc_tags) @ write32 12
         @ (write32 (SK_PICT_PAINT_BUFFER_TAG four_cc_tags) @ write32 1 @ write32 0)
         @ write32 (SK_PICT_EOF_TAG four_cc_tags)) v50 (Extern [Some 9])
       = Inr (SkPictureData (Some []) [3] [] [] [] [] [] [] v50 (Some []) [Some 3], [])"
proof -
  let ?T = four_cc_tags
  let ?eof = "write32 (SK_PICT_EOF_TAG ?T)"
  let ?paint = "write32 (SK_PICT_PAINT_BUFFER_TAG ?T) @ write32 1 @ write32 0"
  let ?buf = "write32 (SK_PICT_BUFFER_SIZE_TAG ?T) @ write32 12 @ ?paint @ ?eof"
  let ?tfs = "write32 (SK_PICT_TYPEFACE_TAG ?T) @ write32 1 @ [3] @ ?buf"
  let ?plain = "write32 (SK_PICT_READER_TAG ?T) @ write32 0
                @ write32 (SK_PICT_FACTORY_TAG ?T) @ write32 4 @ write32 0 @ ?buf"
  let ?own = "write32 (SK_PICT_READER_TAG ?T) @ write32 0
              @ write32 (SK_PICT_FACTORY_TAG ?T) @ write32 4 @ write32 0 @ ?tfs"
  let ?dF = "SkPictureData (Some []) [] [] [] [] [] [] [] v50 (Some []) []
               :: (byte, byte, byte, byte, byte, byte, byte, byte) SkPictureData"
  let ?dO = "SkPictureData (Some []) [] [] [] [] [] [] [] v50 (Some []) [Some 3]
               :: (byte, byte, byte, byte, byte, byte, byte, byte) SkPictureData"
  have d: "tags_distinct ?T" by (rule four_cc_tags_distinct)
  have reachP: "(non_typeface_section ?T ex_readers no_pictures (Extern [Some 9]))\<^sup>*\<^sup>*
                  (new_SkPictureData v50, ?plain) (?dF, ?buf)"
    using reader_factory_example(3) [of "Extern [Some 9]" ?buf]
          reader_factory_example(4) [of "Extern [Some 9]" ?buf]
    by (rule converse_rtranclp_into_rtranclp [OF _ r_into_rtranclp])
  have len: "unat (12 :: u32) \<le> length (?paint @ ?eof)" by simp
  have reachT: "(any_section ?T ex_readers no_pictures (Extern [Some 9]))\<^sup>*\<^sup>*
                  (new_SkPictureData v50, ?own) (?dF, ?tfs)"
    using reader_factory_example(1) [of "Extern [Some 9]" ?tfs]
          reader_factory_example(2) [of "Extern [Some 9]" ?tfs]
    by (rule converse_rtranclp_into_rtranclp [OF _ r_into_rtranclp])
  have tfs: "read_typefaces ex_readers (nat (sint (1 :: u32))) 0
               (replicate (nat (sint (1 :: u32))) None) ([3] @ ?buf) = ([Some 3], ?buf)"
    by (rule own_typeface_example)
  have quiet: "(non_typeface_section ?T ex_readers no_pictures (Extern [Some 9]))\<^sup>*\<^sup>*
                 (set_fTFPlayback [Some 3] ?dF, ?buf) (?dO, ?buf)"
    by simp
  note choice = typeface_playback_choice
                  [OF d, where R = ex_readers and mk = no_pictures and tab = "[Some 9]"
                     and info = v50 and streamP = ?plain and dP = ?dF and szP = 12
                     and afterP = "?paint @ ?eof" and fpP = "[]" and stream = ?own
                     and dT = ?dF and count = 1 and sT = "[3] @ ?buf" and own = "[Some 3]"
                     and sB = ?buf and d = ?dO and sz = 12 and after = "?paint @ ?eof"
                     and fp = "[]"]
  have stop: "parseStream ?T ex_readers no_pictures dd ?eof (Extern [Some 9]) = Inr (dd, [])"
    for dd
    using parseStream_eof [of ?T ex_readers no_pictures dd "[]"] by simp
  have plain: "CreateFromStream ?T ex_readers no_pictures ?plain v50 (Extern [Some 9])
                 = Inr (SkPictureData (Some []) [9] [] [] [] [] [] [] v50 (Some []) [], [])"
    using choice [THEN conjunct1] reachP len
    by (simp add: paint_buffer_example stop v50_def)
  have own: "CreateFromStream ?T ex_readers no_pictures ?own v50 (Extern [Some 9])
               = Inr (SkPictureData (Some []) [3] [] [] [] [] [] [] v50 (Some []) [Some 3], [])"
    using choice [THEN conjunct2] reachT tfs quiet len
    by (simp add: paint_buffer_example stop v50_def)
  show ?thesis
    using d reachP len plain reachT tfs own by simp
qed

end
